theory Spec2Isabelle
  imports Main "HOL-Library.Sublist"
begin

section \<open>Python string operations used by core.py\<close>

text \<open>
  Python strings are modelled as \<open>string\<close>. \<open>s.split(sep)\<close> cuts \<open>s\<close> at the
  non-overlapping occurrences of \<open>sep\<close>, scanning from the left; the result is never
  the empty list. core.py only calls it with the constant separators \<open>'/'\<close> and
  \<open>'://'\<close>.
\<close>

function split_aux :: "string \<Rightarrow> string \<Rightarrow> string \<Rightarrow> string list" where
  "split_aux sep cur [] = [rev cur]"
| "split_aux sep cur (c # cs) =
     (if sep \<noteq> [] \<and> prefix sep (c # cs)
      then rev cur # split_aux sep [] (drop (length sep) (c # cs))
      else split_aux sep (c # cur) cs)"
  by pat_completeness auto
termination
  by (relation "measure (\<lambda>(sep, cur, s). length s)") auto

definition py_split :: "string \<Rightarrow> string \<Rightarrow> string list" where
  "py_split s sep = split_aux sep [] s"

text \<open>\<open>s.find(sub) == -1\<close> holds exactly when \<open>sub\<close> does not occur in \<open>s\<close>.\<close>

fun py_contains :: "string \<Rightarrow> string \<Rightarrow> bool" where
  "py_contains sub [] = (sub = [])"
| "py_contains sub (c # cs) = (prefix sub (c # cs) \<or> py_contains sub cs)"

definition py_rstrip :: "string \<Rightarrow> char \<Rightarrow> string" where
  "py_rstrip s c = rev (dropWhile (\<lambda>x. x = c) (rev s))"

definition py_lstrip :: "string \<Rightarrow> char \<Rightarrow> string" where
  "py_lstrip s c = dropWhile (\<lambda>x. x = c) s"

fun py_join :: "string \<Rightarrow> string list \<Rightarrow> string" where
  "py_join sep [] = []"
| "py_join sep [x] = x"
| "py_join sep (x # y # ys) = x @ sep @ py_join sep (y # ys)"

section \<open>Exceptions\<close>

text \<open>
  Every \<open>raise\<close> of core.py and every exception a backend call may throw is a value.
  \<open>ValueError\<close> is what core.py raises itself; \<open>IndexError\<close> is Python's for
  \<open>paths[0]\<close> on an empty list; \<open>BackendError\<close> stands for any exception (a subclass
  of \<open>Exception\<close>) thrown by a collaborator, with the text \<open>str(e)\<close> gives.
\<close>

datatype exn = ValueError string | IndexError string | BackendError string

fun exn_str :: "exn \<Rightarrow> string" where
  "exn_str (ValueError m) = m"
| "exn_str (IndexError m) = m"
| "exn_str (BackendError m) = m"

section \<open>Path algebra\<close>

text \<open>
  \<open>_ltrim_match(s, match)\<close>, lines 16-30: both failures raise
  \<open>ValueError(f"Path {s} not in directory {match}")\<close>.
\<close>

definition path_mismatch :: "string \<Rightarrow> string \<Rightarrow> exn" where
  "path_mismatch s m = ValueError (''Path '' @ s @ '' not in directory '' @ m)"

definition ltrim_match :: "string \<Rightarrow> string \<Rightarrow> exn + string" where
  "ltrim_match s m =
     (if length s < length m then Inl (path_mismatch s m)
      else if take (length m) s \<noteq> m then Inl (path_mismatch s m)
      else Inr (drop (length m) s))"

section \<open>Backend handles, observable events and the world\<close>

text \<open>
  A backend handle carries the \<open>protocol\<close> attribute the code compares and formats, and
  the \<open>domain\<close> attribute read on content-addressed handles. fsspec reports the
  protocol either as one string or as a list of aliases (line 48).
\<close>

datatype proto = Tag string | Aliases "string list"

record fs =
  protocol :: proto
  domain :: string

text \<open>The metadata dictionary of one entry: \<open>info['type']\<close> and \<open>info.get('size', None)\<close>.\<close>

record file_info =
  itype :: string
  isize :: "int option"

text \<open>The two fields of \<open>parse_url\<close>'s result that core.py reads.\<close>

record parsed_url =
  path :: string
  branch :: string

datatype semaphore = MAX_CONCURRENT_COPIES | Semaphore nat

text \<open>
  Everything the code does to the outside: output, permits and calls on backend handles.
  A run is described by the list of events it appends, in order.
\<close>

datatype event =
    Stdout string
  | Stderr string
  | Acquire semaphore
  | Release semaphore
  | Info fs string
  | AddDeduplicationHints fs string
  | OpenRead fs string
  | OpenWrite fs string
  | Read fs string int
  | Write fs string string
  | CloseRead fs string
  | CloseWrite fs string
  | CpFile fs string string
  | BranchInfo fs string
  | IsDir fs string
  | IsDirOrBranch fs string
  | Glob fs string
  | Find fs string
  | MakeDirs fs string
  | Mv fs string string
  | Rm fs string
  | StartTransaction fs string
  | EndTransaction fs
  | DuplicateRepo fs string string
  | SetRepoAttr fs string string bool
  | GetUsername fs

text \<open>
  The collaborators of core.py that are not part of it are parameters. The answer of a
  backend call may depend on everything that happened before it, so each oracle takes
  the events so far and the call. \<open>w_returns\<close> answers the calls whose result the code
  ignores (\<open>None\<close>: the call returns; \<open>Some e\<close>: it raises \<open>e\<close>).
  \<open>w_filesystem\<close> is \<open>fsspec.filesystem\<close>, \<open>w_XetFS\<close> the constructor \<open>XetFS()\<close>,
  \<open>w_abspath\<close> is \<open>os.path.abspath\<close>, \<open>w_parse_url\<close> is \<open>url_parsing.parse_url\<close>,
  \<open>w_repr\<close> is Python's formatting of a list of strings and \<open>CHUNK_SIZE\<close> the
  constant of \<open>config\<close>.
\<close>

record world =
  w_abspath :: "string \<Rightarrow> string"
  w_filesystem :: "string \<Rightarrow> exn + fs"
  w_XetFS :: "exn + fs"
  w_parse_url :: "string \<Rightarrow> string \<Rightarrow> exn + parsed_url"
  w_repr :: "string list \<Rightarrow> string"
  CHUNK_SIZE :: int
  w_returns :: "event list \<Rightarrow> event \<Rightarrow> exn option"
  w_info :: "event list \<Rightarrow> event \<Rightarrow> exn + file_info"
  w_bool :: "event list \<Rightarrow> event \<Rightarrow> exn + bool"
  w_listing :: "event list \<Rightarrow> event \<Rightarrow> exn + (string \<times> file_info) list"
  w_chunk :: "event list \<Rightarrow> event \<Rightarrow> exn + string"
  w_str :: "event list \<Rightarrow> event \<Rightarrow> exn + string"

text \<open>
  A piece of code maps the events so far to its outcome and the extended events. The
  outcome is an exception or a value, or \<open>None\<close> when the fuel of a loop ran out before
  the code returned: the events are then those of the run up to that point.
\<close>

type_synonym 'a prog = "event list \<Rightarrow> (exn + 'a) option \<times> event list"

definition ret :: "'a \<Rightarrow> 'a prog" where
  "ret x tr = (Some (Inr x), tr)"

definition throw :: "exn \<Rightarrow> 'a prog" where
  "throw e tr = (Some (Inl e), tr)"

definition lift :: "exn + 'a \<Rightarrow> 'a prog" where
  "lift r tr = (Some r, tr)"

definition seq :: "'a prog \<Rightarrow> ('a \<Rightarrow> 'b prog) \<Rightarrow> 'b prog" where
  "seq m f tr =
     (case m tr of
        (None, tr') \<Rightarrow> (None, tr')
      | (Some (Inl e), tr') \<Rightarrow> (Some (Inl e), tr')
      | (Some (Inr x), tr') \<Rightarrow> f x tr')"

text \<open>\<open>try: m except Exception as e: h e\<close>\<close>

definition catch :: "'a prog \<Rightarrow> (exn \<Rightarrow> 'a prog) \<Rightarrow> 'a prog" where
  "catch m h tr =
     (case m tr of
        (None, tr') \<Rightarrow> (None, tr')
      | (Some (Inl e), tr') \<Rightarrow> h e tr'
      | (Some (Inr x), tr') \<Rightarrow> (Some (Inr x), tr'))"

definition emit :: "event \<Rightarrow> unit prog" where
  "emit ev tr = (Some (Inr ()), tr @ [ev])"

definition call :: "world \<Rightarrow> event \<Rightarrow> unit prog" where
  "call w c tr =
     (case w_returns w tr c of
        None \<Rightarrow> (Some (Inr ()), tr @ [c])
      | Some e \<Rightarrow> (Some (Inl e), tr @ [c]))"

definition call_info :: "world \<Rightarrow> event \<Rightarrow> file_info prog" where
  "call_info w c tr = (Some (w_info w tr c), tr @ [c])"

definition call_bool :: "world \<Rightarrow> event \<Rightarrow> bool prog" where
  "call_bool w c tr = (Some (w_bool w tr c), tr @ [c])"

definition call_listing :: "world \<Rightarrow> event \<Rightarrow> (string \<times> file_info) list prog" where
  "call_listing w c tr = (Some (w_listing w tr c), tr @ [c])"

definition call_chunk :: "world \<Rightarrow> event \<Rightarrow> string prog" where
  "call_chunk w c tr = (Some (w_chunk w tr c), tr @ [c])"

definition call_str :: "world \<Rightarrow> event \<Rightarrow> string prog" where
  "call_str w c tr = (Some (w_str w tr c), tr @ [c])"

text \<open>
  Leaving a \<open>with\<close> block: the semaphore is released whatever the body did; a file is
  closed whatever the body did, and an exception of the close replaces the outcome.
  A body that has not returned has not left the block.
\<close>

definition releasing :: "semaphore \<Rightarrow> 'a prog \<Rightarrow> 'a prog" where
  "releasing sem m tr =
     (case m tr of
        (None, tr') \<Rightarrow> (None, tr')
      | (Some r, tr') \<Rightarrow> (Some r, tr' @ [Release sem]))"

definition closing :: "world \<Rightarrow> event \<Rightarrow> 'a prog \<Rightarrow> 'a prog" where
  "closing w c m tr =
     (case m tr of
        (None, tr') \<Rightarrow> (None, tr')
      | (Some r, tr') \<Rightarrow>
          (case w_returns w tr' c of
             None \<Rightarrow> (Some r, tr' @ [c])
           | Some e \<Rightarrow> (Some (Inl e), tr' @ [c])))"

definition proto_str :: "world \<Rightarrow> proto \<Rightarrow> string" where
  "proto_str w p = (case p of Tag t \<Rightarrow> t | Aliases ts \<Rightarrow> w_repr w ts)"

section \<open>URI resolver\<close>

text \<open>\<open>_get_fs_and_path(uri)\<close>, lines 33-50.\<close>

definition get_fs_and_path :: "world \<Rightarrow> string \<Rightarrow> (fs \<times> string) prog" where
  "get_fs_and_path w uri =
     (if \<not> py_contains ''://'' uri then
        seq (lift (w_filesystem w ''file'')) (\<lambda>fs.
          ret (fs, w_abspath w uri))
      else
        (let split = py_split uri ''://'' in
         seq (if length split \<noteq> 2
              then emit (Stderr (''Invalid URL: '' @ uri)) else ret ()) (\<lambda>_.
           if split ! 0 = ''xet'' then
             seq (lift (w_XetFS w)) (\<lambda>fs. ret (fs, split ! 1))
           else
             seq (lift (w_filesystem w (split ! 0))) (\<lambda>fs.
               ret (case protocol fs of
                      Aliases _ \<Rightarrow> fs\<lparr>protocol := Tag (split ! 0)\<rparr>
                    | Tag _ \<Rightarrow> fs,
                    split ! 1)))))"

section \<open>Single-item transfer\<close>

text \<open>
  The loop of lines 78-82. It ends when a read returns the empty chunk or a call raises;
  a source that never does either keeps it running, which is the outcome \<open>None\<close>
  for every amount of fuel.
\<close>

fun copy_chunks ::
  "nat \<Rightarrow> world \<Rightarrow> fs \<Rightarrow> string \<Rightarrow> fs \<Rightarrow> string \<Rightarrow> int \<Rightarrow> unit prog" where
  "copy_chunks 0 w src_fs src_path dest_fs dest_path buffer_size tr = (None, tr)"
| "copy_chunks (Suc fuel) w src_fs src_path dest_fs dest_path buffer_size tr =
     seq (call_chunk w (Read src_fs src_path buffer_size)) (\<lambda>chunk.
       if chunk = [] then ret ()
       else
         seq (call w (Write dest_fs dest_path chunk)) (\<lambda>_.
           copy_chunks fuel w src_fs src_path dest_fs dest_path buffer_size)) tr"

text \<open>Lines 67-68: the size the threshold is compared with.\<close>

definition effective_size :: "world \<Rightarrow> fs \<Rightarrow> string \<Rightarrow> int option \<Rightarrow> int option prog" where
  "effective_size w src_fs src_path size_hint =
     (case size_hint of
        None \<Rightarrow> seq (call_info w (Info src_fs src_path)) (\<lambda>i. ret (isize i))
      | Some n \<Rightarrow> ret (Some n))"

text \<open>Lines 66-73: the deduplication hints for a large object.\<close>

definition prepare_hints ::
  "world \<Rightarrow> fs \<Rightarrow> string \<Rightarrow> fs \<Rightarrow> string \<Rightarrow> int option \<Rightarrow> unit prog" where
  "prepare_hints w src_fs src_path dest_fs dest_path size_hint =
     (if protocol dest_fs = Tag ''xet'' then
        seq (effective_size w src_fs src_path size_hint) (\<lambda>size_hint.
          case size_hint of
            None \<Rightarrow> ret ()
          | Some n \<Rightarrow>
              if n \<ge> 50000000
              then call w (AddDeduplicationHints dest_fs dest_path)
              else ret ())
      else ret ())"

text \<open>Lines 75-82: the two files are opened, the chunks copied, the files closed.\<close>

definition stream_copy ::
  "nat \<Rightarrow> world \<Rightarrow> fs \<Rightarrow> string \<Rightarrow> fs \<Rightarrow> string \<Rightarrow> int \<Rightarrow> unit prog" where
  "stream_copy fuel w src_fs src_path dest_fs dest_path buffer_size =
     seq (call w (OpenRead src_fs src_path)) (\<lambda>_.
       closing w (CloseRead src_fs src_path)
         (seq (call w (OpenWrite dest_fs dest_path)) (\<lambda>_.
            closing w (CloseWrite dest_fs dest_path)
              (copy_chunks fuel w src_fs src_path dest_fs dest_path buffer_size))))"

text \<open>Lines 66-82: the body of the \<open>try\<close>.\<close>

definition transfer_body ::
  "nat \<Rightarrow> world \<Rightarrow> fs \<Rightarrow> string \<Rightarrow> fs \<Rightarrow> string \<Rightarrow> int \<Rightarrow> int option \<Rightarrow> unit prog" where
  "transfer_body fuel w src_fs src_path dest_fs dest_path buffer_size size_hint =
     seq (prepare_hints w src_fs src_path dest_fs dest_path size_hint) (\<lambda>_.
       stream_copy fuel w src_fs src_path dest_fs dest_path buffer_size)"

text \<open>\<open>_single_file_copy\<close>, lines 53-85.\<close>

definition single_file_copy ::
  "nat \<Rightarrow> world \<Rightarrow> fs \<Rightarrow> string \<Rightarrow> fs \<Rightarrow> string \<Rightarrow> int \<Rightarrow> int option \<Rightarrow> semaphore
    \<Rightarrow> unit prog" where
  "single_file_copy fuel w src_fs src_path dest_fs dest_path buffer_size size_hint
      max_concurrent_copies =
     (if last (py_split dest_path ''/'') = ''.gitattributes'' then
        emit (Stdout ''Skipping .gitattributes as that is required for Xet Magic'')
      else
        seq (emit (Stdout (''Copying '' @ src_path @ '' to '' @ dest_path @ ''...''))) (\<lambda>_.
          if protocol src_fs = Tag ''xet'' \<and> protocol dest_fs = Tag ''xet'' then
            call w (CpFile dest_fs src_path dest_path)
          else
            seq (emit (Acquire max_concurrent_copies)) (\<lambda>_.
              releasing max_concurrent_copies
                (catch
                   (transfer_body fuel w src_fs src_path dest_fs dest_path
                      buffer_size size_hint)
                   (\<lambda>e. emit (Stdout (''Failed to copy '' @ proto_str w (protocol src_fs)
                                        @ ''://'' @ src_path @ '': '' @ exn_str e)))))))"

section \<open>Validation and directory detection\<close>

text \<open>\<open>_validate_xet_copy\<close>, lines 88-113; its return value is not used.\<close>

definition validate_xet_copy :: "world \<Rightarrow> fs \<Rightarrow> string \<Rightarrow> fs \<Rightarrow> string \<Rightarrow> unit prog" where
  "validate_xet_copy w src_fs src_path dest_fs dest_path =
     (let srcproto = protocol src_fs; destproto = protocol dest_fs in
      seq (if srcproto = Tag ''xet''
           then call w (BranchInfo src_fs src_path) else ret ()) (\<lambda>_.
        if destproto = Tag ''xet'' then
          seq (if srcproto = Tag ''xet'' then
                 seq (lift (w_parse_url w src_path (domain src_fs))) (\<lambda>src_parse.
                   seq (lift (w_parse_url w dest_path (domain dest_fs))) (\<lambda>dest_parse.
                     ret (path src_parse = [] \<and> path dest_parse = [])))
               else ret False) (\<lambda>branch_to_branch.
            if branch_to_branch then ret ()
            else call w (BranchInfo dest_fs dest_path))
        else ret ()))"

text \<open>\<open>_isdir\<close>, lines 116-120.\<close>

definition isdir :: "world \<Rightarrow> fs \<Rightarrow> string \<Rightarrow> bool prog" where
  "isdir w f p =
     (if protocol f = Tag ''xet'' then call_bool w (IsDirOrBranch f p)
      else call_bool w (IsDir f p))"

section \<open>Tree and glob walker\<close>

text \<open>
  The worker pool is modelled by one of its schedules: a submitted job runs to its end
  at the moment it is submitted, and its outcome is kept as the result of its future.
  \<open>wait_all\<close> is the loop over \<open>future.result()\<close>, which raises the first exception
  among the results, in submission order.
\<close>

definition submit :: "unit prog \<Rightarrow> (exn + unit) prog" where
  "submit job tr =
     (case job tr of
        (None, tr') \<Rightarrow> (None, tr')
      | (Some r, tr') \<Rightarrow> (Some (Inr r), tr'))"

fun wait_all :: "(exn + unit) list \<Rightarrow> unit prog" where
  "wait_all [] = ret ()"
| "wait_all (Inl e # futures) = throw e"
| "wait_all (Inr u # futures) = wait_all futures"

text \<open>Lines 163-167 and 212-216.\<close>

definition dest_for :: "string \<Rightarrow> string \<Rightarrow> string" where
  "dest_for dest_path relpath =
     (if dest_path = ''/'' then ''/'' @ relpath else dest_path @ ''/'' @ relpath)"

definition parent_dir :: "string \<Rightarrow> string" where
  "parent_dir p = py_join ''/'' (butlast (py_split p ''/''))"

text \<open>The loop of directory mode, lines 206-227.\<close>

fun find_loop ::
  "nat \<Rightarrow> world \<Rightarrow> fs \<Rightarrow> string \<Rightarrow> fs \<Rightarrow> string \<Rightarrow> bool
    \<Rightarrow> (string \<times> file_info) list \<Rightarrow> (exn + unit) list \<Rightarrow> (exn + unit) list prog" where
  "find_loop fuel w src_fs src_path dest_fs dest_path recursive [] futures = ret futures"
| "find_loop fuel w src_fs src_path dest_fs dest_path recursive ((p, i) # rest) futures =
     (if itype i = ''directory'' \<and> \<not> recursive then
        find_loop fuel w src_fs src_path dest_fs dest_path recursive rest futures
      else
        seq (lift (ltrim_match p src_path)) (\<lambda>rel.
          let relpath = py_lstrip rel CHR ''/'';
              dest_for_this_path = dest_for dest_path relpath;
              dest_dir = parent_dir dest_for_this_path
          in
          seq (call w (MakeDirs dest_fs dest_dir)) (\<lambda>_.
            seq (submit (single_file_copy fuel w src_fs p dest_fs dest_for_this_path
                           (CHUNK_SIZE w) (isize i) MAX_CONCURRENT_COPIES)) (\<lambda>r.
              find_loop fuel w src_fs src_path dest_fs dest_path recursive rest
                (futures @ [r])))))"

text \<open>
  The loop of glob mode, lines 158-190; \<open>nested\<close> is the recursive call of \<open>_copy\<close> on
  the two URIs rebuilt from the handles' protocols.
\<close>

fun glob_loop ::
  "(string \<Rightarrow> string \<Rightarrow> unit prog) \<Rightarrow> nat \<Rightarrow> world \<Rightarrow> fs \<Rightarrow> string \<Rightarrow> fs \<Rightarrow> string \<Rightarrow> bool
    \<Rightarrow> (string \<times> file_info) list \<Rightarrow> (exn + unit) list \<Rightarrow> (exn + unit) list prog" where
  "glob_loop nested fuel w src_fs src_root_dir dest_fs dest_path recursive [] futures =
     ret futures"
| "glob_loop nested fuel w src_fs src_root_dir dest_fs dest_path recursive ((p, i) # rest)
      futures =
     (if itype i = ''directory'' \<and> \<not> recursive then
        glob_loop nested fuel w src_fs src_root_dir dest_fs dest_path recursive rest futures
      else
        seq (lift (ltrim_match p src_root_dir)) (\<lambda>rel.
          let relpath = py_lstrip rel CHR ''/'';
              dest_for_this_path = dest_for dest_path relpath;
              dest_dir = parent_dir dest_for_this_path
          in
          seq (call w (MakeDirs dest_fs dest_dir)) (\<lambda>_.
            seq (submit
                   (if itype i = ''directory'' then
                      nested (proto_str w (protocol src_fs) @ ''://'' @ p)
                             (proto_str w (protocol dest_fs) @ ''://'' @ dest_for_this_path)
                    else
                      single_file_copy fuel w src_fs p dest_fs dest_for_this_path
                        (CHUNK_SIZE w) (isize i) MAX_CONCURRENT_COPIES)) (\<lambda>r.
              glob_loop nested fuel w src_fs src_root_dir dest_fs dest_path recursive rest
                (futures @ [r])))))"

definition invalid_glob :: "string \<Rightarrow> exn" where
  "invalid_glob source =
     ValueError (''Invalid glob '' @ source
                 @ ''. Wildcards can only appear in the last position'')"

text \<open>Lines 140-143.\<close>

definition normalize :: "string \<Rightarrow> string" where
  "normalize p = (if p \<noteq> ''/'' then py_rstrip p CHR ''/'' else p)"

text \<open>
  \<open>_copy\<close>, lines 123-233. A directory matched by a wildcard is copied by a nested
  \<open>_copy\<close>, whose depth nothing in the code bounds: the fuel counts it down, and also
  bounds the chunk loops of the transfers.
\<close>

fun copy ::
  "nat \<Rightarrow> world \<Rightarrow> string \<Rightarrow> string \<Rightarrow> bool \<Rightarrow> fs option \<Rightarrow> fs option \<Rightarrow> semaphore
    \<Rightarrow> unit prog" where
  "copy 0 w source destination recursive src_fs_arg dest_fs_arg max_concurrent_copies tr =
     (None, tr)"
| "copy (Suc fuel) w source destination recursive src_fs_arg dest_fs_arg
      max_concurrent_copies tr =
     seq (get_fs_and_path w source) (\<lambda>(src_fs0, src_path0).
     seq (get_fs_and_path w destination) (\<lambda>(dest_fs0, dest_path0).
       let src_fs = (case src_fs_arg of Some f \<Rightarrow> f | None \<Rightarrow> src_fs0);
           dest_fs = (case dest_fs_arg of Some f \<Rightarrow> f | None \<Rightarrow> dest_fs0);
           srcproto = protocol src_fs;
           destproto = protocol dest_fs
       in
       seq (validate_xet_copy w src_fs src_path0 dest_fs dest_path0) (\<lambda>_.
         let src_path = normalize src_path0;
             dest_path = normalize dest_path0
         in
         seq (isdir w src_fs src_path) (\<lambda>src_isdir.
           if CHR ''*'' \<in> set src_path then
             (let src_root_dir = parent_dir src_path in
              if CHR ''*'' \<in> set src_root_dir then throw (invalid_glob source)
              else
                seq (call_listing w (Glob src_fs src_path)) (\<lambda>entries.
                  seq (glob_loop
                         (\<lambda>s d. copy fuel w s d True (Some src_fs) (Some dest_fs)
                                  MAX_CONCURRENT_COPIES)
                         (Suc fuel) w src_fs src_root_dir dest_fs dest_path recursive
                         entries [])
                    wait_all))
           else if src_isdir then
             (if srcproto = Tag ''xet'' \<and> destproto = Tag ''xet'' then
                seq (emit (Stdout (''Copying '' @ src_path @ '' to '' @ dest_path
                                   @ ''...''))) (\<lambda>_.
                  call w (CpFile dest_fs src_path dest_path))
              else
                seq (call_listing w (Find src_fs src_path)) (\<lambda>entries.
                  seq (find_loop (Suc fuel) w src_fs src_path dest_fs dest_path recursive
                         entries [])
                    wait_all))
           else
             single_file_copy (Suc fuel) w src_fs src_path dest_fs dest_path
               (CHUNK_SIZE w) None max_concurrent_copies)))) tr"

section \<open>Mutating operations\<close>

text \<open>
  \<open>_mv\<close>, lines 236-254. The message printed on line 243 is not an f-string, so its
  braces are printed as they stand.
\<close>

definition mv :: "world \<Rightarrow> string \<Rightarrow> string \<Rightarrow> bool \<Rightarrow> string \<Rightarrow> unit prog" where
  "mv w source target recursive message_arg =
     (let message =
            (if message_arg = [] then
               (if \<not> recursive then ''move '' @ source @ '' to '' @ target
                else ''move '' @ source @ '' to '' @ target @ '' recursively'')
             else message_arg)
      in
      seq (get_fs_and_path w source) (\<lambda>(src_fs, src_path).
      seq (get_fs_and_path w target) (\<lambda>(dest_fs, dest_path).
        seq (if protocol src_fs \<noteq> protocol dest_fs then
               emit (Stderr (''Unable to move between different protocols ''
                             @ ''{src_fs.protocol}, {dest_fs.protocol}'' @ [CHR 0x0A]
                             @ ''You may want to copy instead''))
             else ret ()) (\<lambda>_.
          let destproto_is_xet = (protocol dest_fs = Tag ''xet'') in
          catch
            (seq (if destproto_is_xet
                  then call w (StartTransaction dest_fs message) else ret ()) (\<lambda>_.
               seq (call w (Mv dest_fs src_path dest_path)) (\<lambda>_.
                 if destproto_is_xet then call w (EndTransaction dest_fs) else ret ())))
            (\<lambda>e. emit (Stdout (exn_str e)))))))"

text \<open>
  The loop of lines 264-270: \<open>True\<close> when a branch root was found, reported, and the
  function returned.
\<close>

fun branch_check :: "world \<Rightarrow> fs \<Rightarrow> string list \<Rightarrow> bool prog" where
  "branch_check w f [] = ret False"
| "branch_check w f (p # ps) =
     seq (lift (w_parse_url w p (domain f))) (\<lambda>parsed_path.
       if length (path parsed_path) = 0 \<and> length (branch parsed_path) > 0 then
         seq (emit (Stderr (''Cannot delete branches with 'rm' as this is a ''
                            @ ''non-reversible operation and history will not be ''
                            @ ''preserved. Use 'xet branch del'' @ [CHR 0x27]))) (\<lambda>_. ret True)
       else branch_check w f ps)"

text \<open>The loop of lines 272-273.\<close>

fun rm_each :: "world \<Rightarrow> fs \<Rightarrow> string list \<Rightarrow> unit prog" where
  "rm_each w f [] = ret ()"
| "rm_each w f (p # ps) = seq (call w (Rm f p)) (\<lambda>_. rm_each w f ps)"

text \<open>\<open>_rm\<close>, lines 257-278; \<open>paths[0]\<close> raises on the empty list.\<close>

definition rm :: "world \<Rightarrow> string list \<Rightarrow> string \<Rightarrow> unit prog" where
  "rm w paths message_arg =
     (let message = (if message_arg = [] then ''delete '' @ w_repr w paths else message_arg)
      in
      case paths of
        [] \<Rightarrow> throw (IndexError ''list index out of range'')
      | p0 # _ \<Rightarrow>
          seq (get_fs_and_path w p0) (\<lambda>(f, _).
            catch
              (let destproto_is_xet = (protocol f = Tag ''xet'') in
               seq (if destproto_is_xet then
                      seq (branch_check w f paths) (\<lambda>returned.
                        if returned then ret True
                        else seq (call w (StartTransaction f message)) (\<lambda>_. ret False))
                    else ret False) (\<lambda>returned.
                 if returned then ret ()
                 else
                   seq (rm_each w f paths) (\<lambda>_.
                     if destproto_is_xet then call w (EndTransaction f) else ret ())))
              (\<lambda>e. emit (Stdout (exn_str e)))))"

text \<open>\<open>_info\<close>, lines 281-283.\<close>

definition info :: "world \<Rightarrow> string \<Rightarrow> file_info prog" where
  "info w uri = seq (get_fs_and_path w uri) (\<lambda>(f, p). call_info w (Info f p))"

text \<open>\<open>_duplicate\<close>, lines 286-318.\<close>

definition say :: "bool \<Rightarrow> string \<Rightarrow> unit prog" where
  "say verbose msg = (if verbose then emit (Stdout msg) else ret ())"

definition duplicate ::
  "world \<Rightarrow> string \<Rightarrow> string option \<Rightarrow> bool \<Rightarrow> bool \<Rightarrow> bool \<Rightarrow> unit prog" where
  "duplicate w source dest_arg private public verbose =
     seq (lift (w_XetFS w)) (\<lambda>f.
       let repo_name = last (py_split (py_rstrip source CHR ''/'') ''/'') in
       seq (case dest_arg of
              None \<Rightarrow>
                seq (call_str w (GetUsername f)) (\<lambda>user.
                  let dest = ''xet://'' @ user @ ''/'' @ repo_name in
                  seq (say verbose (''Duplicating to '' @ dest)) (\<lambda>_. ret dest))
            | Some d \<Rightarrow> ret d) (\<lambda>dest.
         seq (call w (DuplicateRepo f source dest)) (\<lambda>_.
           catch
             (seq (if private then
                     seq (say verbose ''Duplicate Success. Changing permissions...'') (\<lambda>_.
                       seq (call w (SetRepoAttr f dest ''private'' True)) (\<lambda>_.
                         say verbose ''Repo permissions set successfully''))
                   else ret ()) (\<lambda>_.
                if public then
                  seq (say verbose ''Duplicate Success. Changing permissions...'') (\<lambda>_.
                    seq (call w (SetRepoAttr f dest ''public'' False)) (\<lambda>_.
                      say verbose ''Repo permissions set successfully''))
                else ret ()))
             (\<lambda>e.
                seq (call_str w (GetUsername f)) (\<lambda>username.
                  if verbose then
                    seq (emit (Stdout (''An error has occurred setting repository ''
                                       @ ''permissions: '' @ exn_str e))) (\<lambda>_.
                      seq (emit (Stdout (''Permission changes may not have been made. ''
                                         @ ''Please change it manually at:''))) (\<lambda>_.
                        emit (Stdout (''  '' @ domain f @ ''/'' @ username @ ''/''
                                      @ repo_name @ ''/settings''))))
                  else ret ())))))"

section \<open>Statements about runs\<close>

text \<open>
  \<open>raises w h c\<close>: the call \<open>c\<close>, made after the events \<open>h\<close>, raises in the world \<open>w\<close>.
  Output and permits never do. \<open>any_raise w h cs\<close>: one of the calls \<open>cs\<close>, made in
  this order after \<open>h\<close>, raises.
\<close>

fun raises :: "world \<Rightarrow> event list \<Rightarrow> event \<Rightarrow> bool" where
  "raises w h (Stdout s) = False"
| "raises w h (Stderr s) = False"
| "raises w h (Acquire s) = False"
| "raises w h (Release s) = False"
| "raises w h (Info f p) = isl (w_info w h (Info f p))"
| "raises w h (IsDir f p) = isl (w_bool w h (IsDir f p))"
| "raises w h (IsDirOrBranch f p) = isl (w_bool w h (IsDirOrBranch f p))"
| "raises w h (Glob f p) = isl (w_listing w h (Glob f p))"
| "raises w h (Find f p) = isl (w_listing w h (Find f p))"
| "raises w h (Read f p n) = isl (w_chunk w h (Read f p n))"
| "raises w h (GetUsername f) = isl (w_str w h (GetUsername f))"
| "raises w h c = (w_returns w h c \<noteq> None)"

fun any_raise :: "world \<Rightarrow> event list \<Rightarrow> event list \<Rightarrow> bool" where
  "any_raise w h [] = False"
| "any_raise w h (c # cs) = (raises w h c \<or> any_raise w (h @ [c]) cs)"

text \<open>
  \<open>orderly w P m\<close>: the code \<open>m\<close> only appends events, each of them satisfies \<open>P\<close>, and
  when one of its calls raised, \<open>m\<close> itself ended with an exception (it neither swallowed
  the exception nor is it still running).
\<close>

definition orderly :: "world \<Rightarrow> (event \<Rightarrow> bool) \<Rightarrow> 'a prog \<Rightarrow> bool" where
  "orderly w P m =
     (\<forall>tr. \<exists>evs. snd (m tr) = tr @ evs \<and> list_all P evs \<and>
                 (any_raise w tr evs \<longrightarrow> (\<exists>e. fst (m tr) = Some (Inl e))))"

text \<open>The calls that precede the wildcard check of \<open>_copy\<close>, and the output.\<close>

fun preflight :: "event \<Rightarrow> bool" where
  "preflight (Stderr s) = True"
| "preflight (BranchInfo f p) = True"
| "preflight (IsDir f p) = True"
| "preflight (IsDirOrBranch f p) = True"
| "preflight c = False"

fun is_hint :: "event \<Rightarrow> bool" where
  "is_hint (AddDeduplicationHints f p) = True"
| "is_hint c = False"

fun is_open_write :: "event \<Rightarrow> bool" where
  "is_open_write (OpenWrite f p) = True"
| "is_open_write c = False"

definition failed_to_copy :: "world \<Rightarrow> fs \<Rightarrow> string \<Rightarrow> exn \<Rightarrow> event" where
  "failed_to_copy w src_fs src_path e =
     Stdout (''Failed to copy '' @ proto_str w (protocol src_fs) @ ''://'' @ src_path
             @ '': '' @ exn_str e)"

definition cannot_delete_branches :: event where
  "cannot_delete_branches =
     Stderr (''Cannot delete branches with 'rm' as this is a ''
             @ ''non-reversible operation and history will not be ''
             @ ''preserved. Use 'xet branch del'' @ [CHR 0x27])"

definition is_branch_root :: "world \<Rightarrow> fs \<Rightarrow> string \<Rightarrow> bool" where
  "is_branch_root w f p =
     (case w_parse_url w p (domain f) of
        Inl e \<Rightarrow> False
      | Inr u \<Rightarrow> length (path u) = 0 \<and> length (branch u) > 0)"

definition parses :: "world \<Rightarrow> fs \<Rightarrow> string \<Rightarrow> bool" where
  "parses w f p = (\<not> isl (w_parse_url w p (domain f)))"

text \<open>
  What can stop the loop of directory mode with the exception \<open>e\<close>: a listed path
  outside the source directory (line 211), or the directory creation that raised \<open>e\<close>
  as the last call (line 217).
\<close>

definition interrupted_by ::
  "world \<Rightarrow> fs \<Rightarrow> string \<Rightarrow> (string \<times> file_info) list \<Rightarrow> exn \<Rightarrow> event list \<Rightarrow> bool" where
  "interrupted_by w dest_fs src_path entries e tr' =
     ((\<exists>p i. (p, i) \<in> set entries \<and> ltrim_match p src_path = Inl e) \<or>
      (\<exists>h d. tr' = h @ [MakeDirs dest_fs d] \<and> w_returns w h (MakeDirs dest_fs d) = Some e))"

text \<open>
  The first line a single-item transfer prints (line 57 or 59), and the destination that
  mirrors a listed path \<open>p\<close> of the source directory \<open>root\<close> under \<open>dest_root\<close>.
\<close>

definition announce :: "string \<Rightarrow> string \<Rightarrow> event" where
  "announce src_path dest_path =
     Stdout (if last (py_split dest_path ''/'') = ''.gitattributes''
             then ''Skipping .gitattributes as that is required for Xet Magic''
             else ''Copying '' @ src_path @ '' to '' @ dest_path @ ''...'')"

definition mirrored :: "string \<Rightarrow> string \<Rightarrow> string \<Rightarrow> string" where
  "mirrored root dest_root p = dest_for dest_root (py_lstrip (drop (length root) p) CHR ''/'')"

text \<open>
  The two events that mark the dispatch of one entry: the creation of its destination
  directory, then the first line of its transfer. \<open>is_mark\<close> recognises the events of
  these two kinds.
\<close>

definition marks :: "fs \<Rightarrow> string \<Rightarrow> string \<Rightarrow> string \<times> file_info \<Rightarrow> event list" where
  "marks dest_fs root dest_root =
     (\<lambda>(p, i). [MakeDirs dest_fs (parent_dir (mirrored root dest_root p)),
                announce p (mirrored root dest_root p)])"

fun is_mark :: "event \<Rightarrow> bool" where
  "is_mark (MakeDirs f d) = True"
| "is_mark (Stdout s) =
     (prefix ''Copying '' s \<or> s = ''Skipping .gitattributes as that is required for Xet Magic'')"
| "is_mark c = False"

text \<open>
  What the amended statement of directory mode says is done with the entries that are
  not directories, written without the loop of the code: each entry in turn must lie
  under the source directory (else the copy ends with the path mismatch), has the parent
  directory of its mirrored destination created, and is then handed to the single-item
  transfer with its size as the hint.
\<close>

fun dispatch_each ::
  "nat \<Rightarrow> world \<Rightarrow> fs \<Rightarrow> string \<Rightarrow> fs \<Rightarrow> string \<Rightarrow> (string \<times> file_info) list \<Rightarrow> unit prog" where
  "dispatch_each fuel w src_fs root dest_fs dest_root [] = ret ()"
| "dispatch_each fuel w src_fs root dest_fs dest_root ((p, i) # rest) =
     (if \<not> prefix root p then throw (path_mismatch p root)
      else
        seq (call w (MakeDirs dest_fs (parent_dir (mirrored root dest_root p)))) (\<lambda>_.
          seq (single_file_copy fuel w src_fs p dest_fs (mirrored root dest_root p)
                 (CHUNK_SIZE w) (isize i) MAX_CONCURRENT_COPIES) (\<lambda>_.
            dispatch_each fuel w src_fs root dest_fs dest_root rest)))"

section \<open>Concrete worlds\<close>

text \<open>
  A world in which every call returns: every tag resolves to a handle of that protocol,
  nothing is a directory, listings and files are empty.
\<close>

definition calm :: world where
  "calm =
     \<lparr> w_abspath = (\<lambda>p. ''/home/'' @ p),
       w_filesystem = (\<lambda>t. Inr \<lparr>protocol = Tag t, domain = []\<rparr>),
       w_XetFS = Inr \<lparr>protocol = Tag ''xet'', domain = ''https://xethub.com''\<rparr>,
       w_parse_url = (\<lambda>u d. Inr \<lparr>path = ''data.csv'', branch = ''main''\<rparr>),
       w_repr = (\<lambda>ps. ''['' @ py_join '', '' ps @ '']''),
       CHUNK_SIZE = 4,
       w_returns = (\<lambda>tr c. None),
       w_info = (\<lambda>tr c. Inr \<lparr>itype = ''file'', isize = Some 3\<rparr>),
       w_bool = (\<lambda>tr c. Inr False),
       w_listing = (\<lambda>tr c. Inr []),
       w_chunk = (\<lambda>tr c. Inr []),
       w_str = (\<lambda>tr c. Inr ''user'') \<rparr>"

definition s3 :: fs where
  "s3 = \<lparr>protocol = Tag ''s3'', domain = []\<rparr>"

definition gcs :: fs where
  "gcs = \<lparr>protocol = Tag ''gcs'', domain = []\<rparr>"

definition xet :: fs where
  "xet = \<lparr>protocol = Tag ''xet'', domain = ''https://xethub.com''\<rparr>"

text \<open>
  A world with the directory \<open>d\<close> on every backend, holding the file \<open>d/f.txt\<close> and the
  directory \<open>d/sub\<close>; a file gives the chunk \<open>abc\<close> on its first read and is then
  exhausted.
\<close>

definition tree :: world where
  "tree = calm
     \<lparr> w_bool := (\<lambda>tr c. Inr True),
       w_listing := (\<lambda>tr c. Inr [(''d/sub'', \<lparr>itype = ''directory'', isize = None\<rparr>),
                                   (''d/f.txt'', \<lparr>itype = ''file'', isize = Some 3\<rparr>)]),
       w_chunk := (\<lambda>tr c. if c \<in> set tr then Inr [] else Inr ''abc'') \<rparr>"

text \<open>A world whose files hold \<open>abc\<close> and whose writes fail.\<close>

definition readonly :: world where
  "readonly = calm
     \<lparr> w_chunk := (\<lambda>tr c. if c \<in> set tr then Inr [] else Inr ''abc''),
       w_returns := (\<lambda>tr c. case c of Write f p d \<Rightarrow> Some (BackendError ''read-only'')
                                      | _ \<Rightarrow> None) \<rparr>"

text \<open>
  The world \<open>tree\<close> with another enumeration of \<open>d\<close>: its first entry lies outside
  the directory.
\<close>

definition stray :: world where
  "stray = tree
     \<lparr> w_listing := (\<lambda>tr c. Inr [(''x/g.txt'', \<lparr>itype = ''file'', isize = Some 3\<rparr>),
                                   (''d/f.txt'', \<lparr>itype = ''file'', isize = Some 3\<rparr>)]) \<rparr>"

text \<open>A world in which the URI \<open>xet://user/repo/main\<close> parses to the root of a branch.\<close>

definition branchy :: world where
  "branchy = calm
     \<lparr> w_parse_url :=
         (\<lambda>u d. Inr \<lparr>path = (if u = ''xet://user/repo/main'' then [] else ''a.csv''),
                     branch = ''main''\<rparr>) \<rparr>"

section \<open>Theorems\<close>

lemma split_aux_nonempty: "split_aux sep cur s \<noteq> []"
  by (induction sep cur s rule: split_aux.induct) auto

lemma py_split_nonempty: "py_split s sep \<noteq> []"
  by (simp add: py_split_def split_aux_nonempty)

lemma take_eq_iff_prefix: "length m \<le> length s \<Longrightarrow> (take (length m) s = m) = prefix m s"
  by (metis append_eq_conv_conj prefix_def)

lemmas prog_defs = ret_def throw_def lift_def seq_def catch_def emit_def call_def call_info_def
  call_bool_def call_listing_def call_chunk_def call_str_def releasing_def closing_def submit_def

lemma any_raise_append:
  "any_raise w h (xs @ ys) = (any_raise w h xs \<or> any_raise w (h @ xs) ys)"
  by (induction xs arbitrary: h) auto

lemma orderly_ret: "orderly w P (ret x)"
  by (simp add: orderly_def ret_def)

lemma orderly_throw: "orderly w P (throw e)"
  by (simp add: orderly_def throw_def)

lemma orderly_lift: "orderly w P (lift r)"
  by (simp add: orderly_def lift_def)

lemma orderly_emit: "P ev \<Longrightarrow> (\<And>h. \<not> raises w h ev) \<Longrightarrow> orderly w P (emit ev)"
  by (simp add: orderly_def emit_def)

lemma orderly_call:
  "P c \<Longrightarrow> (\<And>h. raises w h c = (w_returns w h c \<noteq> None)) \<Longrightarrow> orderly w P (call w c)"
  by (auto simp: orderly_def call_def split: option.splits)

lemma orderly_call_info: "P (Info f p) \<Longrightarrow> orderly w P (call_info w (Info f p))"
  by (auto simp: orderly_def call_info_def isl_def)

lemma orderly_call_chunk: "P (Read f p n) \<Longrightarrow> orderly w P (call_chunk w (Read f p n))"
  by (auto simp: orderly_def call_chunk_def isl_def)

lemma orderly_call_bool:
  "P c \<Longrightarrow> (\<And>h. raises w h c = isl (w_bool w h c)) \<Longrightarrow> orderly w P (call_bool w c)"
  by (auto simp: orderly_def call_bool_def isl_def)

lemma orderly_seq:
  assumes m: "orderly w P m" and f: "\<And>x. orderly w P (f x)"
  shows "orderly w P (seq m f)"
  unfolding orderly_def
proof
  fix tr
  from m obtain evs where evs: "snd (m tr) = tr @ evs" "list_all P evs"
      "any_raise w tr evs \<longrightarrow> (\<exists>e. fst (m tr) = Some (Inl e))"
    unfolding orderly_def by blast
  show "\<exists>evs. snd (seq m f tr) = tr @ evs \<and> list_all P evs \<and>
               (any_raise w tr evs \<longrightarrow> (\<exists>e. fst (seq m f tr) = Some (Inl e)))"
  proof (cases "fst (m tr)")
    case None
    with evs show ?thesis
      by (cases "m tr") (auto simp: seq_def)
  next
    case (Some r)
    show ?thesis
    proof (cases r)
      case (Inl e)
      with Some evs show ?thesis
        by (cases "m tr") (auto simp: seq_def)
    next
      case (Inr x)
      from f [of x] obtain evs' where evs': "snd (f x (tr @ evs)) = (tr @ evs) @ evs'"
          "list_all P evs'"
          "any_raise w (tr @ evs) evs' \<longrightarrow> (\<exists>e. fst (f x (tr @ evs)) = Some (Inl e))"
        unfolding orderly_def by blast
      from Some Inr evs have run: "seq m f tr = f x (tr @ evs)"
        by (cases "m tr") (auto simp: seq_def)
      from Some Inr evs have quiet: "\<not> any_raise w tr evs"
        by auto
      have "snd (seq m f tr) = tr @ (evs @ evs')"
        using run evs' by simp
      moreover have "list_all P (evs @ evs')"
        using evs evs' by simp
      moreover have "any_raise w tr (evs @ evs') \<longrightarrow> (\<exists>e. fst (seq m f tr) = Some (Inl e))"
        using quiet evs' run by (simp add: any_raise_append)
      ultimately show ?thesis by blast
    qed
  qed
qed

lemma orderly_closing:
  assumes m: "orderly w P m" and c: "P c"
      and k: "\<And>h. raises w h c = (w_returns w h c \<noteq> None)"
  shows "orderly w P (closing w c m)"
  unfolding orderly_def
proof
  fix tr
  from m obtain evs where evs: "snd (m tr) = tr @ evs" "list_all P evs"
      "any_raise w tr evs \<longrightarrow> (\<exists>e. fst (m tr) = Some (Inl e))"
    unfolding orderly_def by blast
  show "\<exists>evs. snd (closing w c m tr) = tr @ evs \<and> list_all P evs \<and>
               (any_raise w tr evs \<longrightarrow> (\<exists>e. fst (closing w c m tr) = Some (Inl e)))"
  proof (cases "fst (m tr)")
    case None
    with evs show ?thesis
      by (cases "m tr") (auto simp: closing_def)
  next
    case (Some r)
    have "snd (closing w c m tr) = tr @ (evs @ [c])"
      using Some evs by (cases "m tr") (auto simp: closing_def split: option.splits)
    moreover have "list_all P (evs @ [c])"
      using evs c by simp
    moreover have "any_raise w tr (evs @ [c]) \<longrightarrow> (\<exists>e. fst (closing w c m tr) = Some (Inl e))"
      using Some evs k by (cases "m tr") (auto simp: closing_def any_raise_append split: option.splits)
    ultimately show ?thesis by blast
  qed
qed

lemma orderly_copy_chunks:
  assumes "\<And>n. P (Read src_fs src_path n)" "\<And>d. P (Write dest_fs dest_path d)"
  shows "orderly w P (copy_chunks fuel w src_fs src_path dest_fs dest_path buffer_size)"
proof (induction fuel)
  case 0
  show ?case by (simp add: orderly_def)
next
  case (Suc fuel)
  have "orderly w P
     (seq (call_chunk w (Read src_fs src_path buffer_size)) (\<lambda>chunk.
       if chunk = [] then ret ()
       else
         seq (call w (Write dest_fs dest_path chunk)) (\<lambda>_.
           copy_chunks fuel w src_fs src_path dest_fs dest_path buffer_size)))"
    by (intro orderly_seq orderly_call_chunk) (auto intro!: orderly_ret orderly_seq orderly_call Suc assms)
  then show ?case
    by (simp add: orderly_def)
qed

lemma orderly_stream_copy:
  assumes "P (OpenRead src_fs src_path)" "P (OpenWrite dest_fs dest_path)"
    "P (CloseRead src_fs src_path)" "P (CloseWrite dest_fs dest_path)"
    "\<And>n. P (Read src_fs src_path n)" "\<And>d. P (Write dest_fs dest_path d)"
  shows "orderly w P (stream_copy fuel w src_fs src_path dest_fs dest_path buffer_size)"
  unfolding stream_copy_def
  by (intro orderly_seq orderly_call orderly_closing orderly_copy_chunks) (simp_all add: assms)

lemma orderly_effective_size:
  "P (Info src_fs src_path) \<Longrightarrow> orderly w P (effective_size w src_fs src_path size_hint)"
  unfolding effective_size_def
  by (cases size_hint) (auto intro!: orderly_seq orderly_call_info orderly_ret)

lemma orderly_prepare_hints:
  "P (Info src_fs src_path) \<Longrightarrow> P (AddDeduplicationHints dest_fs dest_path) \<Longrightarrow>
   orderly w P (prepare_hints w src_fs src_path dest_fs dest_path size_hint)"
  unfolding prepare_hints_def
  by (auto intro!: orderly_seq orderly_effective_size orderly_ret orderly_call split: option.splits)

lemma orderly_transfer_body:
  "orderly w (\<lambda>c. True)
     (transfer_body fuel w src_fs src_path dest_fs dest_path buffer_size size_hint)"
  unfolding transfer_body_def
  by (intro orderly_seq orderly_prepare_hints orderly_stream_copy) simp_all

subsection \<open>Path algebra\<close>

text \<open>
  C5: for all strings \<open>p\<close> and \<open>prefix\<close>, if \<open>prefix\<close> is not a literal prefix of \<open>p\<close>
  (in particular when \<open>p\<close> is shorter), trimming fails with the path-mismatch error; if it
  is, trimming succeeds and \<open>prefix\<close> followed by the result is \<open>p\<close> again.
\<close>

theorem ltrim_match_prefix:
  "(\<not> prefix m s \<longrightarrow> ltrim_match s m = Inl (path_mismatch s m)) \<and>
   (prefix m s \<longrightarrow> (\<exists>r. ltrim_match s m = Inr r \<and> m @ r = s))"
proof (cases "length s < length m")
  case True
  then have "\<not> prefix m s"
    using prefix_length_le by fastforce
  with True show ?thesis
    by (simp add: ltrim_match_def)
next
  case False
  then have eq: "(take (length m) s = m) = prefix m s"
    by (simp add: take_eq_iff_prefix)
  show ?thesis
  proof (cases "prefix m s")
    case True
    with eq have "take (length m) s = m" by simp
    then have "m @ drop (length m) s = s"
      by (metis append_take_drop_id)
    with True False eq show ?thesis
      by (simp add: ltrim_match_def)
  next
    case np: False
    with eq False show ?thesis
      by (simp add: ltrim_match_def)
  qed
qed

theorem ltrim_match_prefix_witness:
  "prefix ''a/b'' ''a/b/c.txt''
   \<and> (\<exists>r. ltrim_match ''a/b/c.txt'' ''a/b'' = Inr r \<and> ''a/b'' @ r = ''a/b/c.txt'')
   \<and> \<not> prefix ''a/b/c.txt'' ''a/b''
   \<and> ltrim_match ''a/b'' ''a/b/c.txt'' = Inl (path_mismatch ''a/b'' ''a/b/c.txt'')"
  using ltrim_match_prefix [of "''a/b''" "''a/b/c.txt''"]
        ltrim_match_prefix [of "''a/b/c.txt''" "''a/b''"]
  by simp

subsection \<open>Single-item transfer\<close>

text \<open>
  C7: when the final segment of the destination path is the attributes marker
  \<open>.gitattributes\<close>, the transfer logs one line and returns without error; it makes no
  call on either backend, so nothing is opened, written or copied on the destination.
\<close>

theorem single_file_copy_skips_marker:
  "last (py_split dest_path ''/'') = ''.gitattributes'' \<Longrightarrow>
   single_file_copy fuel w src_fs src_path dest_fs dest_path buffer_size size_hint sem tr
     = (Some (Inr ()),
        tr @ [Stdout ''Skipping .gitattributes as that is required for Xet Magic''])"
  by (simp add: single_file_copy_def emit_def)

theorem single_file_copy_skips_marker_witness:
  "last (py_split ''repo/main/.gitattributes'' ''/'') = ''.gitattributes''
   \<and> single_file_copy 0 readonly s3 ''d/.gitattributes'' xet ''repo/main/.gitattributes''
        4 None MAX_CONCURRENT_COPIES []
     = (Some (Inr ()),
        [Stdout ''Skipping .gitattributes as that is required for Xet Magic''])"
proof -
  have h: "last (py_split ''repo/main/.gitattributes'' ''/'') = ''.gitattributes''"
    by (simp add: py_split_def)
  show ?thesis
    using h single_file_copy_skips_marker [OF h, of 0 readonly s3 "''d/.gitattributes''" xet
                                             4 None MAX_CONCURRENT_COPIES "[]"]
    by simp
qed

lemma single_file_copy_general:
  assumes general: "\<not> (protocol src_fs = Tag ''xet'' \<and> protocol dest_fs = Tag ''xet'')"
  shows "\<exists>evs.
           snd (single_file_copy fuel w src_fs src_path dest_fs dest_path buffer_size
                  size_hint sem tr) = tr @ evs
         \<and> (\<forall>e. fst (single_file_copy fuel w src_fs src_path dest_fs dest_path buffer_size
                        size_hint sem tr) \<noteq> Some (Inl e))
         \<and> (any_raise w tr evs \<longrightarrow>
              fst (single_file_copy fuel w src_fs src_path dest_fs dest_path buffer_size
                     size_hint sem tr) = Some (Inr ())
              \<and> (\<exists>e. failed_to_copy w src_fs src_path e \<in> set evs))"
proof (cases "last (py_split dest_path ''/'') = ''.gitattributes''")
  case True
  then show ?thesis
    by (simp add: single_file_copy_def emit_def)
next
  case marker: False
  let ?tr0 = "tr @ [Stdout (''Copying '' @ src_path @ '' to '' @ dest_path @ ''...''),
                    Acquire sem]"
  let ?body = "transfer_body fuel w src_fs src_path dest_fs dest_path buffer_size size_hint"
  from orderly_transfer_body [of w fuel src_fs src_path dest_fs dest_path buffer_size size_hint]
  obtain evs where evs: "snd (?body ?tr0) = ?tr0 @ evs"
      "any_raise w ?tr0 evs \<longrightarrow> (\<exists>e. fst (?body ?tr0) = Some (Inl e))"
    unfolding orderly_def by blast
  have unfold: "single_file_copy fuel w src_fs src_path dest_fs dest_path buffer_size
                  size_hint sem tr
      = releasing sem (catch ?body (\<lambda>e. emit (failed_to_copy w src_fs src_path e))) ?tr0"
    using marker general
    by (auto simp: single_file_copy_def failed_to_copy_def seq_def emit_def)
  show ?thesis
  proof (cases "fst (?body ?tr0)")
    case None
    with evs unfold show ?thesis
      by (cases "?body ?tr0") (auto simp: releasing_def catch_def any_raise_append)
  next
    case (Some r)
    show ?thesis
    proof (cases r)
      case (Inl e)
      with Some evs unfold show ?thesis
        by (cases "?body ?tr0") (auto simp: releasing_def catch_def emit_def any_raise_append)
    next
      case (Inr u)
      with Some evs unfold show ?thesis
        by (cases "?body ?tr0") (auto simp: releasing_def catch_def any_raise_append)
    qed
  qed
qed

lemma wait_all_ok: "list_all (\<lambda>r. r = Inr ()) futures \<Longrightarrow> wait_all futures = ret ()"
  by (induction futures rule: wait_all.induct) auto

lemma find_loop_batch:
  assumes general: "\<not> (protocol src_fs = Tag ''xet'' \<and> protocol dest_fs = Tag ''xet'')"
  shows "list_all (\<lambda>r. r = Inr ()) futures \<Longrightarrow>
     (case find_loop fuel w src_fs src_path dest_fs dest_path recursive entries futures tr of
        (None, tr') \<Rightarrow> True
      | (Some (Inl e), tr') \<Rightarrow> interrupted_by w dest_fs src_path entries e tr'
      | (Some (Inr futures'), tr') \<Rightarrow> list_all (\<lambda>r. r = Inr ()) futures')"
proof (induction entries arbitrary: futures tr)
  case Nil
  then show ?case by (simp add: ret_def)
next
  case (Cons entry rest)
  obtain p i where entry: "entry = (p, i)" by (cases entry)
  have mono: "interrupted_by w dest_fs src_path rest e tr'
              \<Longrightarrow> interrupted_by w dest_fs src_path (entry # rest) e tr'" for e tr'
    by (auto simp: interrupted_by_def)
  have step: "case find_loop fuel w src_fs src_path dest_fs dest_path recursive rest fs' tr1 of
        (None, tr') \<Rightarrow> True
      | (Some (Inl e), tr') \<Rightarrow> interrupted_by w dest_fs src_path (entry # rest) e tr'
      | (Some (Inr futures'), tr') \<Rightarrow> list_all (\<lambda>r. r = Inr ()) futures'"
    if "list_all (\<lambda>r. r = Inr ()) fs'" for fs' tr1
    using Cons.IH [OF that, of tr1] mono
    by (auto split: prod.splits option.splits sum.splits)
  show ?case
  proof (cases "itype i = ''directory'' \<and> \<not> recursive")
    case True
    with step [OF Cons.prems, of tr] entry show ?thesis by simp
  next
    case False
    show ?thesis
    proof (cases "ltrim_match p src_path")
      case (Inl e)
      with False entry show ?thesis
        by (auto simp: seq_def lift_def interrupted_by_def)
    next
      case (Inr rel)
      let ?d = "dest_for dest_path (py_lstrip rel CHR ''/'')"
      show ?thesis
      proof (cases "w_returns w tr (MakeDirs dest_fs (parent_dir ?d))")
        case (Some e)
        with False entry Inr show ?thesis
          by (auto simp: seq_def lift_def call_def Let_def interrupted_by_def)
      next
        case None
        let ?job = "single_file_copy fuel w src_fs p dest_fs ?d (CHUNK_SIZE w) (isize i)
                      MAX_CONCURRENT_COPIES (tr @ [MakeDirs dest_fs (parent_dir ?d)])"
        from single_file_copy_general [OF general]
        have never: "fst ?job \<noteq> Some (Inl e)" for e by blast
        show ?thesis
        proof (cases "fst ?job")
          case none: None
          with False entry Inr None show ?thesis
            by (cases ?job) (auto simp: seq_def lift_def call_def Let_def submit_def)
        next
          case (Some r)
          with never have r: "r = Inr ()" by (cases r) auto
          have "list_all (\<lambda>r. r = Inr ()) (futures @ [Inr ()])"
            using Cons.prems by simp
          from step [OF this, of "snd ?job"] False entry Inr None Some r show ?thesis
            by (cases ?job) (auto simp: seq_def lift_def call_def Let_def submit_def)
        qed
      qed
    qed
  qed
qed

text \<open>
  C4: a single-item transfer whose two handles are not both content-addressed (so that it
  does not take the native copy). Whatever the fuel, the run only appends events and
  never ends with an exception; and when one of its calls raised (the size lookup, the
  hint preparation, an open, a read, a write or a close), the run has returned normally
  and has printed the failure line naming the source path. In a batch of directory mode
  the futures therefore never raise: the batch can only end with an exception through a
  listed path outside the source directory or a failed directory creation.
\<close>

theorem single_file_copy_absorbs_errors:
  assumes general: "\<not> (protocol src_fs = Tag ''xet'' \<and> protocol dest_fs = Tag ''xet'')"
  shows "(\<exists>evs.
           snd (single_file_copy fuel w src_fs src_path dest_fs dest_path buffer_size
                  size_hint sem tr) = tr @ evs
         \<and> (\<forall>e. fst (single_file_copy fuel w src_fs src_path dest_fs dest_path buffer_size
                        size_hint sem tr) \<noteq> Some (Inl e))
         \<and> (any_raise w tr evs \<longrightarrow>
              fst (single_file_copy fuel w src_fs src_path dest_fs dest_path buffer_size
                     size_hint sem tr) = Some (Inr ())
              \<and> (\<exists>e. failed_to_copy w src_fs src_path e \<in> set evs)))
       \<and> (\<forall>e tr'. seq (find_loop fuel w src_fs root dest_fs dest_root recursive entries [])
                     wait_all tr = (Some (Inl e), tr')
                   \<longrightarrow> interrupted_by w dest_fs root entries e tr')"
proof (intro conjI allI impI)
  show "\<exists>evs.
           snd (single_file_copy fuel w src_fs src_path dest_fs dest_path buffer_size
                  size_hint sem tr) = tr @ evs
         \<and> (\<forall>e. fst (single_file_copy fuel w src_fs src_path dest_fs dest_path buffer_size
                        size_hint sem tr) \<noteq> Some (Inl e))
         \<and> (any_raise w tr evs \<longrightarrow>
              fst (single_file_copy fuel w src_fs src_path dest_fs dest_path buffer_size
                     size_hint sem tr) = Some (Inr ())
              \<and> (\<exists>e. failed_to_copy w src_fs src_path e \<in> set evs))"
    by (rule single_file_copy_general [OF general])
next
  fix e tr'
  assume run: "seq (find_loop fuel w src_fs root dest_fs dest_root recursive entries [])
                 wait_all tr = (Some (Inl e), tr')"
  have "list_all (\<lambda>r. r = Inr ()) ([] :: (exn + unit) list)" by simp
  from find_loop_batch [OF general this, where fuel = fuel and w = w and src_path = root
       and dest_path = dest_root and recursive = recursive and entries = entries and tr = tr] run
  show "interrupted_by w dest_fs root entries e tr'"
    by (auto simp: seq_def wait_all_ok ret_def split: prod.splits option.splits sum.splits)
qed

theorem single_file_copy_absorbs_errors_witness:
  "\<not> (protocol s3 = Tag ''xet'' \<and> protocol gcs = Tag ''xet'')
   \<and> raises readonly
        [Stdout ''Copying a.txt to b.txt...'', Acquire MAX_CONCURRENT_COPIES,
         OpenRead s3 ''a.txt'', OpenWrite gcs ''b.txt'', Read s3 ''a.txt'' 4]
        (Write gcs ''b.txt'' ''abc'')
   \<and> single_file_copy 3 readonly s3 ''a.txt'' gcs ''b.txt'' 4 None MAX_CONCURRENT_COPIES []
       = (Some (Inr ()),
          [Stdout ''Copying a.txt to b.txt...'', Acquire MAX_CONCURRENT_COPIES,
           OpenRead s3 ''a.txt'', OpenWrite gcs ''b.txt'', Read s3 ''a.txt'' 4,
           Write gcs ''b.txt'' ''abc'', CloseWrite gcs ''b.txt'', CloseRead s3 ''a.txt'',
           failed_to_copy readonly s3 ''a.txt'' (BackendError ''read-only''),
           Release MAX_CONCURRENT_COPIES])"
proof -
  have h: "\<not> (protocol s3 = Tag ''xet'' \<and> protocol gcs = Tag ''xet'')"
    by (simp add: s3_def)
  have r: "raises readonly
        [Stdout ''Copying a.txt to b.txt...'', Acquire MAX_CONCURRENT_COPIES,
         OpenRead s3 ''a.txt'', OpenWrite gcs ''b.txt'', Read s3 ''a.txt'' 4]
        (Write gcs ''b.txt'' ''abc'')"
    by (simp add: readonly_def)
  have run: "single_file_copy 3 readonly s3 ''a.txt'' gcs ''b.txt'' 4 None MAX_CONCURRENT_COPIES []
       = (Some (Inr ()),
          [Stdout ''Copying a.txt to b.txt...'', Acquire MAX_CONCURRENT_COPIES,
           OpenRead s3 ''a.txt'', OpenWrite gcs ''b.txt'', Read s3 ''a.txt'' 4,
           Write gcs ''b.txt'' ''abc'', CloseWrite gcs ''b.txt'', CloseRead s3 ''a.txt'',
           failed_to_copy readonly s3 ''a.txt'' (BackendError ''read-only''),
           Release MAX_CONCURRENT_COPIES])"
    by code_simp
  from single_file_copy_absorbs_errors [OF h, of 3 readonly "''a.txt''" "''b.txt''" 4 None
         MAX_CONCURRENT_COPIES "[]"] h r run
  show ?thesis by simp
qed

lemma effective_size_events:
  "effective_size w src_fs src_path size_hint tr0 = (r, tr1) \<Longrightarrow>
   tr1 = tr0 \<or> tr1 = tr0 @ [Info src_fs src_path]"
  by (cases size_hint) (auto simp: effective_size_def prog_defs split: sum.splits)

lemma stream_copy_no_hint:
  "\<exists>post. snd (stream_copy fuel w src_fs src_path dest_fs dest_path buffer_size t) = t @ post
          \<and> list_all (\<lambda>c. \<not> is_hint c) post"
  using orderly_stream_copy [of "\<lambda>c. \<not> is_hint c" src_fs src_path dest_fs dest_path w fuel
                               buffer_size]
  unfolding orderly_def by auto

text \<open>
  C6: a general-path transfer to the content-addressed backend whose effective size (the
  size hint, or else the size the source reports) is \<open>n\<close>. If \<open>n\<close> is at least
  50,000,000, the hint preparation for the destination path is called once, and no open
  of a destination for writing precedes it in the transfer; if \<open>n\<close> is smaller, the
  transfer never calls it.
\<close>

theorem hints_threshold:
  assumes marker: "last (py_split dest_path ''/'') \<noteq> ''.gitattributes''"
      and dest: "protocol dest_fs = Tag ''xet''"
      and src: "protocol src_fs \<noteq> Tag ''xet''"
      and size: "effective_size w src_fs src_path size_hint
                   (tr @ [Stdout (''Copying '' @ src_path @ '' to '' @ dest_path @ ''...''),
                          Acquire sem])
                 = (Some (Inr (Some n)), tr1)"
  shows "(n \<ge> 50000000 \<longrightarrow>
            (\<exists>pre post.
               snd (single_file_copy fuel w src_fs src_path dest_fs dest_path buffer_size
                      size_hint sem tr)
                 = tr @ pre @ AddDeduplicationHints dest_fs dest_path # post
               \<and> list_all (\<lambda>c. \<not> is_open_write c \<and> \<not> is_hint c) pre
               \<and> list_all (\<lambda>c. \<not> is_hint c) post))
       \<and> (n < 50000000 \<longrightarrow>
            (\<exists>evs.
               snd (single_file_copy fuel w src_fs src_path dest_fs dest_path buffer_size
                      size_hint sem tr) = tr @ evs
               \<and> list_all (\<lambda>c. \<not> is_hint c) evs))"
proof -
  let ?copying = "Stdout (''Copying '' @ src_path @ '' to '' @ dest_path @ ''...'')"
  let ?tr0 = "tr @ [?copying, Acquire sem]"
  let ?hint = "AddDeduplicationHints dest_fs dest_path"
  let ?stream = "stream_copy fuel w src_fs src_path dest_fs dest_path buffer_size"
  let ?run = "single_file_copy fuel w src_fs src_path dest_fs dest_path buffer_size
                size_hint sem tr"
  have unfold: "?run
      = releasing sem
          (catch (seq (prepare_hints w src_fs src_path dest_fs dest_path size_hint)
                    (\<lambda>_. ?stream))
                 (\<lambda>e. emit (failed_to_copy w src_fs src_path e))) ?tr0"
    using marker src
    by (auto simp: single_file_copy_def transfer_body_def failed_to_copy_def seq_def emit_def)
  from effective_size_events [OF size]
  obtain k where k: "tr1 = ?tr0 @ k" "list_all (\<lambda>c. \<not> is_open_write c \<and> \<not> is_hint c) k"
    by auto
  show ?thesis
  proof (intro conjI impI)
    assume big: "n \<ge> 50000000"
    let ?t = "tr1 @ [?hint]"
    obtain post where post: "snd (?stream ?t) = ?t @ post" "list_all (\<lambda>c. \<not> is_hint c) post"
      using stream_copy_no_hint by blast
    have "\<exists>post'. snd ?run = tr1 @ ?hint # post' \<and> list_all (\<lambda>c. \<not> is_hint c) post'"
    proof (cases "w_returns w tr1 ?hint")
      case (Some e)
      with big dest size unfold show ?thesis
        by (simp add: prepare_hints_def seq_def call_def catch_def emit_def releasing_def
                      failed_to_copy_def)
    next
      case None
      with big dest size have body: "seq (prepare_hints w src_fs src_path dest_fs dest_path size_hint)
                    (\<lambda>_. ?stream) ?tr0 = ?stream ?t"
        by (simp add: prepare_hints_def seq_def call_def)
      show ?thesis
        using post unfolding unfold releasing_def catch_def body
        by (cases "?stream ?t")
           (auto simp: emit_def failed_to_copy_def split: option.splits sum.splits)
    qed
    then obtain post' where "snd ?run = tr @ ([?copying, Acquire sem] @ k) @ ?hint # post'"
       "list_all (\<lambda>c. \<not> is_hint c) post'"
      using k by auto
    moreover have "list_all (\<lambda>c. \<not> is_open_write c \<and> \<not> is_hint c) ([?copying, Acquire sem] @ k)"
      using k by simp
    ultimately show "\<exists>pre post.
               snd ?run = tr @ pre @ ?hint # post
               \<and> list_all (\<lambda>c. \<not> is_open_write c \<and> \<not> is_hint c) pre
               \<and> list_all (\<lambda>c. \<not> is_hint c) post"
      by blast
  next
    assume small: "n < 50000000"
    obtain post where post: "snd (?stream tr1) = tr1 @ post" "list_all (\<lambda>c. \<not> is_hint c) post"
      using stream_copy_no_hint by blast
    from small dest size have body: "seq (prepare_hints w src_fs src_path dest_fs dest_path size_hint)
                    (\<lambda>_. ?stream) ?tr0 = ?stream tr1"
      by (simp add: prepare_hints_def seq_def ret_def)
    have "\<exists>post'. snd ?run = tr1 @ post' \<and> list_all (\<lambda>c. \<not> is_hint c) post'"
      using post unfolding unfold releasing_def catch_def body
      by (cases "?stream tr1")
         (auto simp: emit_def failed_to_copy_def split: option.splits sum.splits)
    then obtain post' where "snd ?run = tr @ ([?copying, Acquire sem] @ k) @ post'"
       "list_all (\<lambda>c. \<not> is_hint c) post'"
      using k by auto
    moreover have "list_all (\<lambda>c. \<not> is_hint c) ([?copying, Acquire sem] @ k)"
      using k by (auto simp: list_all_iff)
    ultimately have "snd ?run = tr @ (([?copying, Acquire sem] @ k) @ post')
         \<and> list_all (\<lambda>c. \<not> is_hint c) (([?copying, Acquire sem] @ k) @ post')"
      by simp
    then show "\<exists>evs. snd ?run = tr @ evs \<and> list_all (\<lambda>c. \<not> is_hint c) evs"
      by blast
  qed
qed

theorem hints_threshold_witness:
  "last (py_split ''b.txt'' ''/'') \<noteq> ''.gitattributes''
   \<and> protocol xet = Tag ''xet''
   \<and> protocol s3 \<noteq> Tag ''xet''
   \<and> effective_size tree s3 ''a.txt'' (Some 50000000)
        [Stdout ''Copying a.txt to b.txt...'', Acquire MAX_CONCURRENT_COPIES]
       = (Some (Inr (Some 50000000)),
          [Stdout ''Copying a.txt to b.txt...'', Acquire MAX_CONCURRENT_COPIES])
   \<and> (\<exists>pre post.
         snd (single_file_copy 3 tree s3 ''a.txt'' xet ''b.txt'' 4 (Some 50000000)
                MAX_CONCURRENT_COPIES [])
           = [] @ pre @ AddDeduplicationHints xet ''b.txt'' # post
         \<and> list_all (\<lambda>c. \<not> is_open_write c \<and> \<not> is_hint c) pre
         \<and> list_all (\<lambda>c. \<not> is_hint c) post)
   \<and> effective_size tree s3 ''a.txt'' None
        [Stdout ''Copying a.txt to b.txt...'', Acquire MAX_CONCURRENT_COPIES]
       = (Some (Inr (Some 3)),
          [Stdout ''Copying a.txt to b.txt...'', Acquire MAX_CONCURRENT_COPIES,
           Info s3 ''a.txt''])
   \<and> (\<exists>evs.
         snd (single_file_copy 3 tree s3 ''a.txt'' xet ''b.txt'' 4 None
                MAX_CONCURRENT_COPIES []) = [] @ evs
         \<and> list_all (\<lambda>c. \<not> is_hint c) evs)"
proof -
  have m: "last (py_split ''b.txt'' ''/'') \<noteq> ''.gitattributes''"
    by (simp add: py_split_def)
  have d: "protocol xet = Tag ''xet''"
    by (simp add: xet_def)
  have s: "protocol s3 \<noteq> Tag ''xet''"
    by (simp add: s3_def)
  have big: "effective_size tree s3 ''a.txt'' (Some 50000000)
        ([] @ [Stdout (''Copying '' @ ''a.txt'' @ '' to '' @ ''b.txt'' @ ''...''),
               Acquire MAX_CONCURRENT_COPIES])
       = (Some (Inr (Some 50000000)),
          [Stdout ''Copying a.txt to b.txt...'', Acquire MAX_CONCURRENT_COPIES])"
    by (simp add: effective_size_def ret_def)
  have small: "effective_size tree s3 ''a.txt'' None
        ([] @ [Stdout (''Copying '' @ ''a.txt'' @ '' to '' @ ''b.txt'' @ ''...''),
               Acquire MAX_CONCURRENT_COPIES])
       = (Some (Inr (Some 3)),
          [Stdout ''Copying a.txt to b.txt...'', Acquire MAX_CONCURRENT_COPIES,
           Info s3 ''a.txt''])"
    by (simp add: effective_size_def tree_def calm_def prog_defs)
  from hints_threshold [OF m d s big, of 3 4] hints_threshold [OF m d s small, of 3 4]
       m d s big small
  show ?thesis by simp
qed

subsection \<open>Mutating operations\<close>

lemma rm_each_ok:
  "(\<forall>k<length ps. w_returns w (tr @ map (Rm f) (take k ps)) (Rm f (ps ! k)) = None) \<Longrightarrow>
   rm_each w f ps tr = (Some (Inr ()), tr @ map (Rm f) ps)"
proof (induction ps arbitrary: tr)
  case Nil
  then show ?case by (simp add: ret_def)
next
  case (Cons p ps)
  from Cons.prems have hd: "w_returns w tr (Rm f p) = None"
    by fastforce
  have tl: "\<forall>k<length ps. w_returns w ((tr @ [Rm f p]) @ map (Rm f) (take k ps)) (Rm f (ps ! k)) = None"
  proof (intro allI impI)
    fix k assume "k < length ps"
    then have "Suc k < length (p # ps)" by simp
    with Cons.prems have "w_returns w (tr @ map (Rm f) (take (Suc k) (p # ps))) (Rm f ((p # ps) ! Suc k)) = None"
      by blast
    then show "w_returns w ((tr @ [Rm f p]) @ map (Rm f) (take k ps)) (Rm f (ps ! k)) = None"
      by simp
  qed
  from Cons.IH [OF tl] hd show ?case
    by (simp add: seq_def call_def)
qed

lemma branch_check_clean:
  "\<forall>p \<in> set ps. parses w f p \<and> \<not> is_branch_root w f p \<Longrightarrow>
   branch_check w f ps tr = (Some (Inr False), tr)"
  by (induction ps) (auto simp: parses_def is_branch_root_def prog_defs split: sum.splits)

lemma branch_check_found:
  "\<exists>p \<in> set ps. is_branch_root w f p \<Longrightarrow>
   branch_check w f ps tr = (Some (Inr True), tr @ [cannot_delete_branches])
   \<or> (\<exists>e. branch_check w f ps tr = (Some (Inl e), tr))"
  by (induction ps) (auto simp: is_branch_root_def cannot_delete_branches_def prog_defs split: sum.splits)

lemma branch_check_found_parsed:
  "\<exists>p \<in> set ps. is_branch_root w f p \<Longrightarrow> \<forall>p \<in> set ps. parses w f p \<Longrightarrow>
   branch_check w f ps tr = (Some (Inr True), tr @ [cannot_delete_branches])"
  by (induction ps) (auto simp: is_branch_root_def parses_def cannot_delete_branches_def prog_defs split: sum.splits)

text \<open>
  C8: a delete on the content-addressed backend (the handle resolved from the first path
  has protocol \<open>xet\<close>). If one of the requested paths is the root of a branch, the
  delete is rejected: the run returns after one report, with no transaction opened and
  no path removed; the report is the branch message when every path parses, and else the
  text of the parser's exception. If every path parses and none is a branch root, the
  begin call returns and every removal returns, then one transaction is opened, every
  requested path is removed inside it, in order, and the transaction is ended; an
  exception of the end call is printed.
\<close>

theorem rm_xet:
  assumes "paths = p0 # ps"
      and "get_fs_and_path w p0 tr = (Some (Inr (f, q)), tr1)"
      and "protocol f = Tag ''xet''"
      and "message = (if message_arg = [] then ''delete '' @ w_repr w paths else message_arg)"
  shows "((\<exists>p \<in> set paths. is_branch_root w f p) \<longrightarrow>
            (\<exists>report. rm w paths message_arg tr = (Some (Inr ()), tr1 @ [report])
               \<and> (report = cannot_delete_branches \<or> (\<exists>e. report = Stdout (exn_str e)))
               \<and> ((\<forall>p \<in> set paths. parses w f p) \<longrightarrow> report = cannot_delete_branches)))
       \<and> ((\<forall>p \<in> set paths. parses w f p \<and> \<not> is_branch_root w f p)
            \<and> w_returns w tr1 (StartTransaction f message) = None
            \<and> (\<forall>k<length paths.
                  w_returns w (tr1 @ StartTransaction f message # map (Rm f) (take k paths))
                    (Rm f (paths ! k)) = None) \<longrightarrow>
            rm w paths message_arg tr
              = (Some (Inr ()),
                 tr1 @ [StartTransaction f message] @ map (Rm f) paths @ [EndTransaction f]
                   @ (case w_returns w (tr1 @ StartTransaction f message # map (Rm f) paths)
                             (EndTransaction f) of
                        None \<Rightarrow> []
                      | Some e \<Rightarrow> [Stdout (exn_str e)])))"
proof (intro conjI impI)
  assume br: "\<exists>p \<in> set paths. is_branch_root w f p"
  from branch_check_found [OF br, of tr1]
  show "\<exists>report. rm w paths message_arg tr = (Some (Inr ()), tr1 @ [report])
               \<and> (report = cannot_delete_branches \<or> (\<exists>e. report = Stdout (exn_str e)))
               \<and> ((\<forall>p \<in> set paths. parses w f p) \<longrightarrow> report = cannot_delete_branches)"
  proof
    assume found: "branch_check w f paths tr1 = (Some (Inr True), tr1 @ [cannot_delete_branches])"
    have "rm w paths message_arg tr = (Some (Inr ()), tr1 @ [cannot_delete_branches])"
      using assms(2,3) found unfolding rm_def assms(1) [symmetric]
      by (simp add: assms(1) seq_def catch_def ret_def)
    then show ?thesis by blast
  next
    assume "\<exists>e. branch_check w f paths tr1 = (Some (Inl e), tr1)"
    then obtain e where e: "branch_check w f paths tr1 = (Some (Inl e), tr1)" ..
    have np: "\<not> (\<forall>p \<in> set paths. parses w f p)"
      using branch_check_found_parsed [OF br, of tr1] e by auto
    have "rm w paths message_arg tr = (Some (Inr ()), tr1 @ [Stdout (exn_str e)])"
      using assms(2,3) e unfolding rm_def assms(1) [symmetric]
      by (simp add: assms(1) seq_def catch_def ret_def emit_def)
    with np show ?thesis by blast
  qed
next
  assume h: "(\<forall>p \<in> set paths. parses w f p \<and> \<not> is_branch_root w f p)
            \<and> w_returns w tr1 (StartTransaction f message) = None
            \<and> (\<forall>k<length paths.
                  w_returns w (tr1 @ StartTransaction f message # map (Rm f) (take k paths))
                    (Rm f (paths ! k)) = None)"
  then have bc: "branch_check w f paths tr1 = (Some (Inr False), tr1)"
    using branch_check_clean by blast
  from h have "\<forall>k<length paths.
                  w_returns w ((tr1 @ [StartTransaction f message]) @ map (Rm f) (take k paths))
                    (Rm f (paths ! k)) = None" by simp
  then have each: "rm_each w f paths (tr1 @ [StartTransaction f message])
      = (Some (Inr ()), (tr1 @ [StartTransaction f message]) @ map (Rm f) paths)"
    by (rule rm_each_ok)
  from h have st: "w_returns w tr1 (StartTransaction f message) = None" by simp
  show "rm w paths message_arg tr
              = (Some (Inr ()),
                 tr1 @ [StartTransaction f message] @ map (Rm f) paths @ [EndTransaction f]
                   @ (case w_returns w (tr1 @ StartTransaction f message # map (Rm f) paths)
                             (EndTransaction f) of
                        None \<Rightarrow> []
                      | Some e \<Rightarrow> [Stdout (exn_str e)]))"
    using assms(2,3) bc each st unfolding rm_def assms(1) [symmetric] assms(4) [symmetric]
    by (simp add: assms(1) seq_def catch_def ret_def emit_def call_def Let_def
             split: option.splits)
qed

theorem rm_xet_witness:
  "is_branch_root branchy xet ''xet://user/repo/main''
   \<and> rm branchy [''xet://user/repo/main/a.csv'', ''xet://user/repo/main''] ''cleanup'' []
       = (Some (Inr ()), [cannot_delete_branches])
   \<and> parses branchy xet ''xet://user/repo/main/a.csv''
   \<and> \<not> is_branch_root branchy xet ''xet://user/repo/main/a.csv''
   \<and> parses branchy xet ''xet://user/repo/main/b.csv''
   \<and> \<not> is_branch_root branchy xet ''xet://user/repo/main/b.csv''
   \<and> rm branchy [''xet://user/repo/main/a.csv'', ''xet://user/repo/main/b.csv''] ''cleanup'' []
       = (Some (Inr ()),
          [StartTransaction xet ''cleanup'', Rm xet ''xet://user/repo/main/a.csv'',
           Rm xet ''xet://user/repo/main/b.csv'', EndTransaction xet])"
proof -
  have g: "get_fs_and_path branchy ''xet://user/repo/main/a.csv'' []
             = (Some (Inr (xet, ''user/repo/main/a.csv'')), [])"
    by (simp add: get_fs_and_path_def branchy_def calm_def xet_def py_split_def prog_defs)
  have x: "protocol xet = Tag ''xet''"
    by (simp add: xet_def)
  have m: "''cleanup'' = (if ''cleanup'' = [] then ''delete '' @ w_repr branchy ps else ''cleanup'')" for ps
    by simp
  have b1: "\<exists>p \<in> set [''xet://user/repo/main/a.csv'', ''xet://user/repo/main''].
       is_branch_root branchy xet p"
    by (simp add: is_branch_root_def branchy_def)
  have p1: "\<forall>p \<in> set [''xet://user/repo/main/a.csv'', ''xet://user/repo/main'']. parses branchy xet p"
    by (simp add: parses_def branchy_def)
  have c2: "\<forall>p \<in> set [''xet://user/repo/main/a.csv'', ''xet://user/repo/main/b.csv''].
         parses branchy xet p \<and> \<not> is_branch_root branchy xet p"
    by (simp add: parses_def is_branch_root_def branchy_def)
  have ok: "w_returns branchy h c = None" for h c
    by (simp add: branchy_def calm_def)
  from rm_xet [OF refl g x m, where ps = "[''xet://user/repo/main'']"] b1 p1
  have r1: "rm branchy [''xet://user/repo/main/a.csv'', ''xet://user/repo/main''] ''cleanup'' []
       = (Some (Inr ()), [cannot_delete_branches])"
    by auto
  from rm_xet [OF refl g x m, where ps = "[''xet://user/repo/main/b.csv'']"] c2 ok
  have r2: "rm branchy [''xet://user/repo/main/a.csv'', ''xet://user/repo/main/b.csv''] ''cleanup'' []
       = (Some (Inr ()),
          [StartTransaction xet ''cleanup'', Rm xet ''xet://user/repo/main/a.csv'',
           Rm xet ''xet://user/repo/main/b.csv'', EndTransaction xet])"
    by auto
  from b1 r1 c2 r2 show ?thesis by simp
qed

text \<open>
  C10: a duplicate called with the public flag. The only value the run ever gives the
  \<open>public\<close> attribute is \<open>False\<close>; and when no call of the run raised, the attribute
  \<open>public\<close> of the destination repository has been set to \<open>False\<close> and the run
  returned.
\<close>

theorem duplicate_public_sets_false:
  assumes "w_XetFS w = Inr f"
      and "dest_arg = Some dest \<or>
           (dest_arg = None \<and> w_str w tr (GetUsername f) = Inr user \<and>
            dest = ''xet://'' @ user @ ''/'' @ last (py_split (py_rstrip source CHR ''/'') ''/''))"
  shows "\<exists>evs. snd (duplicate w source dest_arg private True verbose tr) = tr @ evs
           \<and> (\<forall>g d v. SetRepoAttr g d ''public'' v \<in> set evs \<longrightarrow> v = False)
           \<and> (\<not> any_raise w tr evs \<longrightarrow>
                SetRepoAttr f dest ''public'' False \<in> set evs
                \<and> fst (duplicate w source dest_arg private True verbose tr) = Some (Inr ()))"
  using assms
  apply (cases dest_arg; cases verbose; cases "private")
  apply (simp_all add: duplicate_def say_def prog_defs Let_def split: option.splits sum.splits)
  done

theorem duplicate_public_sets_false_witness:
  "w_XetFS calm = Inr xet
   \<and> SetRepoAttr xet ''xet://user/repo'' ''public'' False
       \<in> set (snd (duplicate calm ''xet://other/repo/'' None False True True []))
   \<and> fst (duplicate calm ''xet://other/repo/'' None False True True []) = Some (Inr ())"
proof -
  have h1: "w_XetFS calm = Inr xet"
    by (simp add: calm_def xet_def)
  have h2: "Some ''xet://user/repo'' = Some ''xet://user/repo'' \<or>
           (None = None \<and> w_str calm [] (GetUsername xet) = Inr ''user'' \<and>
            ''xet://user/repo'' = ''xet://'' @ ''user'' @ ''/''
               @ last (py_split (py_rstrip ''xet://other/repo/'' CHR ''/'') ''/''))"
    by simp
  have h3: "(None :: string option) = Some ''xet://user/repo'' \<or>
           (None = (None :: string option) \<and> w_str calm [] (GetUsername xet) = Inr ''user'' \<and>
            ''xet://user/repo'' = ''xet://'' @ ''user'' @ ''/''
               @ last (py_split (py_rstrip ''xet://other/repo/'' CHR ''/'') ''/''))"
    by (simp add: calm_def py_rstrip_def py_split_def)
  have run: "duplicate calm ''xet://other/repo/'' None False True True []
     = (Some (Inr ()),
        [GetUsername xet, Stdout ''Duplicating to xet://user/repo'',
         DuplicateRepo xet ''xet://other/repo/'' ''xet://user/repo'',
         Stdout ''Duplicate Success. Changing permissions...'',
         SetRepoAttr xet ''xet://user/repo'' ''public'' False,
         Stdout ''Repo permissions set successfully''])"
    by code_simp
  have nr: "\<not> any_raise calm [] [GetUsername xet, Stdout ''Duplicating to xet://user/repo'',
         DuplicateRepo xet ''xet://other/repo/'' ''xet://user/repo'',
         Stdout ''Duplicate Success. Changing permissions...'',
         SetRepoAttr xet ''xet://user/repo'' ''public'' False,
         Stdout ''Repo permissions set successfully'']"
    by (simp add: calm_def)
  from duplicate_public_sets_false [OF h1 h3, of False True] run nr h1
  show ?thesis by simp
qed

text \<open>
  C1, at the move of \<open>s3://bucket/a\<close> to \<open>gcs://other/b\<close>: the two handles have
  different protocols, the message is printed, and the move is still issued on the
  destination handle.
\<close>

theorem mv_cross_backend_moves:
  "mv calm ''s3://bucket/a'' ''gcs://other/b'' False [] []
   = (Some (Inr ()),
      [Stderr (''Unable to move between different protocols ''
               @ ''{src_fs.protocol}, {dest_fs.protocol}'' @ [CHR 0x0A]
               @ ''You may want to copy instead''),
       Mv gcs ''bucket/a'' ''other/b''])"
  by (simp add: mv_def get_fs_and_path_def calm_def gcs_def py_split_def prog_defs)

subsection \<open>URI resolver\<close>

text \<open>
  C9, at the URI \<open>s3://a://b\<close>, which has two separators: the resolver prints its
  message and still returns a handle with the path \<open>a\<close>, on which the backend is then
  queried.
\<close>

theorem info_malformed_uri_proceeds:
  "info calm ''s3://a://b'' []
   = (Some (Inr \<lparr>itype = ''file'', isize = Some 3\<rparr>),
      [Stderr ''Invalid URL: s3://a://b'', Info s3 ''a''])"
  by (simp add: info_def get_fs_and_path_def calm_def s3_def py_split_def prog_defs)

subsection \<open>Tree and glob walker\<close>

lemma orderly_get_fs_and_path: "orderly w preflight (get_fs_and_path w uri)"
  unfolding get_fs_and_path_def Let_def
  by (auto intro!: orderly_seq orderly_lift orderly_ret orderly_emit)

lemma orderly_validate_xet_copy:
  "orderly w preflight (validate_xet_copy w src_fs src_path dest_fs dest_path)"
  unfolding validate_xet_copy_def Let_def
  by (auto intro!: orderly_seq orderly_lift orderly_ret orderly_call)

lemma orderly_isdir: "orderly w preflight (isdir w f p)"
  unfolding isdir_def
  by (auto intro!: orderly_call_bool)

lemma orderly_events:
  "orderly w P m \<Longrightarrow> m tr = (r, tr') \<Longrightarrow> \<exists>evs. tr' = tr @ evs \<and> list_all P evs"
  unfolding orderly_def by (metis snd_conv)

lemma set_py_join: "seg \<in> set xs \<Longrightarrow> set seg \<subseteq> set (py_join sep xs)"
  by (induction sep xs rule: py_join.induct) auto

lemma set_split_aux: "seg \<in> set (split_aux sep cur s) \<Longrightarrow> set seg \<subseteq> set cur \<union> set s"
proof (induction sep cur s rule: split_aux.induct)
  case (1 sep cur)
  then show ?case by auto
next
  case (2 sep cur c cs)
  show ?case
  proof (cases "sep \<noteq> [] \<and> prefix sep (c # cs)")
    case True
    with "2.prems" have "seg = rev cur \<or> seg \<in> set (split_aux sep [] (drop (length sep) (c # cs)))"
      by auto
    then show ?thesis
    proof
      assume "seg = rev cur" then show ?thesis by auto
    next
      assume "seg \<in> set (split_aux sep [] (drop (length sep) (c # cs)))"
      with "2.IH"(1) True have "set seg \<subseteq> set [] \<union> set (drop (length sep) (c # cs))"
        by blast
      moreover have "set (drop (length sep) (c # cs)) \<subseteq> set (c # cs)"
        by (rule set_drop_subset)
      ultimately show ?thesis by auto
    qed
  next
    case False
    with "2.prems" have "seg \<in> set (split_aux sep (c # cur) cs)"
      by auto
    with "2.IH"(2) False have "set seg \<subseteq> set (c # cur) \<union> set cs"
      by blast
    then show ?thesis by auto
  qed
qed

lemma wildcard_in_parent:
  assumes "\<exists>seg \<in> set (butlast (py_split p ''/'')). CHR ''*'' \<in> set seg"
  shows "CHR ''*'' \<in> set (parent_dir p) \<and> CHR ''*'' \<in> set p"
proof -
  from assms obtain seg where seg: "seg \<in> set (butlast (py_split p ''/''))" "CHR ''*'' \<in> set seg"
    by blast
  from seg(1) have "set seg \<subseteq> set (parent_dir p)"
    unfolding parent_dir_def by (rule set_py_join)
  moreover from seg(1) have "seg \<in> set (py_split p ''/'')"
    by (rule in_set_butlastD)
  then have "set seg \<subseteq> set p"
    using set_split_aux [of seg "''/''" "[]" p] by (simp add: py_split_def)
  ultimately show ?thesis using seg(2) by blast
qed

text \<open>
  C3, amended: when the source path, after its trailing slashes are removed, has a
  wildcard in a segment other than the last, and the two URIs resolve, the validation
  returns and the directory query returns, then the copy fails with the invalid-glob
  error as soon as the directory query has returned: the only events of the run are
  output, branch checks and the directory query, so nothing was enumerated, created or
  transferred.
\<close>

theorem copy_invalid_glob:
  assumes src: "get_fs_and_path w source tr = (Some (Inr (src_fs0, src_path0)), tr1)"
      and dst: "get_fs_and_path w destination tr1 = (Some (Inr (dest_fs0, dest_path0)), tr2)"
      and sfs: "src_fs = (case src_fs_arg of Some f \<Rightarrow> f | None \<Rightarrow> src_fs0)"
      and dfs: "dest_fs = (case dest_fs_arg of Some f \<Rightarrow> f | None \<Rightarrow> dest_fs0)"
      and val: "validate_xet_copy w src_fs src_path0 dest_fs dest_path0 tr2
                  = (Some (Inr ()), tr3)"
      and dir: "isdir w src_fs (normalize src_path0) tr3 = (Some (Inr b), tr4)"
      and glob: "\<exists>seg \<in> set (butlast (py_split (normalize src_path0) ''/'')).
                   CHR ''*'' \<in> set seg"
  shows "copy (Suc fuel) w source destination recursive src_fs_arg dest_fs_arg sem tr
           = (Some (Inl (invalid_glob source)), tr4)
         \<and> (\<exists>evs. tr4 = tr @ evs \<and> list_all preflight evs)"
proof
  from wildcard_in_parent [OF glob]
  have star: "CHR ''*'' \<in> set (normalize src_path0)"
             "CHR ''*'' \<in> set (parent_dir (normalize src_path0))"
    by simp_all
  show "copy (Suc fuel) w source destination recursive src_fs_arg dest_fs_arg sem tr
           = (Some (Inl (invalid_glob source)), tr4)"
    using src dst val dir star unfolding sfs dfs
    by (simp add: seq_def throw_def Let_def)
next
  from orderly_events [OF orderly_get_fs_and_path src]
  obtain e1 where e1: "tr1 = tr @ e1" "list_all preflight e1" by blast
  from orderly_events [OF orderly_get_fs_and_path dst]
  obtain e2 where e2: "tr2 = tr1 @ e2" "list_all preflight e2" by blast
  from orderly_events [OF orderly_validate_xet_copy val]
  obtain e3 where e3: "tr3 = tr2 @ e3" "list_all preflight e3" by blast
  from orderly_events [OF orderly_isdir dir]
  obtain e4 where e4: "tr4 = tr3 @ e4" "list_all preflight e4" by blast
  from e1 e2 e3 e4 have "tr4 = tr @ (e1 @ e2 @ e3 @ e4) \<and> list_all preflight (e1 @ e2 @ e3 @ e4)"
    by simp
  then show "\<exists>evs. tr4 = tr @ evs \<and> list_all preflight evs"
    by blast
qed

theorem copy_invalid_glob_witness:
  "get_fs_and_path calm ''s3://d*/x'' [] = (Some (Inr (s3, ''d*/x'')), [])
   \<and> get_fs_and_path calm ''gcs://out'' [] = (Some (Inr (gcs, ''out'')), [])
   \<and> validate_xet_copy calm s3 ''d*/x'' gcs ''out'' [] = (Some (Inr ()), [])
   \<and> isdir calm s3 (normalize ''d*/x'') [] = (Some (Inr False), [IsDir s3 ''d*/x''])
   \<and> (\<exists>seg \<in> set (butlast (py_split (normalize ''d*/x'') ''/'')). CHR ''*'' \<in> set seg)
   \<and> copy 1 calm ''s3://d*/x'' ''gcs://out'' True None None MAX_CONCURRENT_COPIES []
       = (Some (Inl (invalid_glob ''s3://d*/x'')), [IsDir s3 ''d*/x''])"
proof -
  have a: "get_fs_and_path calm ''s3://d*/x'' [] = (Some (Inr (s3, ''d*/x'')), [])"
    by (simp add: get_fs_and_path_def calm_def s3_def py_split_def prog_defs)
  have b: "get_fs_and_path calm ''gcs://out'' [] = (Some (Inr (gcs, ''out'')), [])"
    by (simp add: get_fs_and_path_def calm_def gcs_def py_split_def prog_defs)
  have sf: "s3 = (case (None :: fs option) of Some f \<Rightarrow> f | None \<Rightarrow> s3)"
    by simp
  have df: "gcs = (case (None :: fs option) of Some f \<Rightarrow> f | None \<Rightarrow> gcs)"
    by simp
  have v: "validate_xet_copy calm s3 ''d*/x'' gcs ''out'' [] = (Some (Inr ()), [])"
    by (simp add: validate_xet_copy_def s3_def gcs_def prog_defs)
  have i: "isdir calm s3 (normalize ''d*/x'') [] = (Some (Inr False), [IsDir s3 ''d*/x''])"
    by (simp add: isdir_def normalize_def py_rstrip_def s3_def calm_def prog_defs)
  have g: "\<exists>seg \<in> set (butlast (py_split (normalize ''d*/x'') ''/'')). CHR ''*'' \<in> set seg"
    by (simp add: normalize_def py_rstrip_def py_split_def)
  from copy_invalid_glob [OF a b sf df v i g, of 0 True MAX_CONCURRENT_COPIES] a b v i g
  show ?thesis by simp
qed

text \<open>
  The claim as stated fails: on a content-addressed source the branch check and the
  directory query are both made before the wildcard is looked at.
\<close>

theorem copy_invalid_glob_counterexample:
  "copy 1 calm ''xet://d*/x'' ''gcs://out'' True None None MAX_CONCURRENT_COPIES []
   = (Some (Inl (invalid_glob ''xet://d*/x'')),
      [BranchInfo xet ''d*/x'', IsDirOrBranch xet ''d*/x''])"
  by code_simp

lemma ltrim_match_cases:
  "ltrim_match p root =
     (if prefix root p then Inr (drop (length root) p) else Inl (path_mismatch p root))"
proof (cases "length p < length root")
  case True
  then have "\<not> prefix root p"
    using prefix_length_le by fastforce
  with True show ?thesis by (simp add: ltrim_match_def)
next
  case False
  then have "(take (length root) p = root) = prefix root p"
    by (simp add: take_eq_iff_prefix)
  with False show ?thesis by (simp add: ltrim_match_def)
qed

lemma failed_not_mark: "\<not> is_mark (failed_to_copy w src_fs src_path e)"
  by (simp add: failed_to_copy_def)

lemma transfer_body_no_mark:
  "\<exists>evs. snd (transfer_body fuel w src_fs src_path dest_fs dest_path buffer_size size_hint t)
           = t @ evs \<and> list_all (\<lambda>c. \<not> is_mark c) evs"
proof -
  have "orderly w (\<lambda>c. \<not> is_mark c)
          (transfer_body fuel w src_fs src_path dest_fs dest_path buffer_size size_hint)"
    unfolding transfer_body_def
    by (intro orderly_seq orderly_prepare_hints orderly_stream_copy) simp_all
  then show ?thesis
    unfolding orderly_def by blast
qed

lemma single_file_copy_marks:
  "\<exists>evs. snd (single_file_copy fuel w src_fs src_path dest_fs dest_path buffer_size
                size_hint sem tr) = tr @ announce src_path dest_path # evs
         \<and> list_all (\<lambda>c. \<not> is_mark c) evs"
proof (cases "last (py_split dest_path ''/'') = ''.gitattributes''")
  case True
  then show ?thesis
    by (simp add: single_file_copy_def emit_def announce_def)
next
  case marker: False
  show ?thesis
  proof (cases "protocol src_fs = Tag ''xet'' \<and> protocol dest_fs = Tag ''xet''")
    case True
    with marker show ?thesis
      by (auto simp: single_file_copy_def announce_def seq_def emit_def call_def
               split: option.splits)
  next
    case general: False
    let ?tr0 = "tr @ [announce src_path dest_path, Acquire sem]"
    let ?body = "transfer_body fuel w src_fs src_path dest_fs dest_path buffer_size size_hint"
    obtain evs where evs: "snd (?body ?tr0) = ?tr0 @ evs" "list_all (\<lambda>c. \<not> is_mark c) evs"
      using transfer_body_no_mark by blast
    have unfold: "single_file_copy fuel w src_fs src_path dest_fs dest_path buffer_size
                    size_hint sem tr
        = releasing sem (catch ?body (\<lambda>e. emit (failed_to_copy w src_fs src_path e))) ?tr0"
      using marker general
      by (auto simp: single_file_copy_def failed_to_copy_def announce_def seq_def emit_def)
    have "\<exists>evs'. snd (releasing sem (catch ?body (\<lambda>e. emit (failed_to_copy w src_fs src_path e)))
                         ?tr0) = ?tr0 @ evs' \<and> list_all (\<lambda>c. \<not> is_mark c) evs'"
      using evs failed_not_mark [of w src_fs src_path]
      by (cases "?body ?tr0")
         (auto simp: releasing_def catch_def emit_def split: option.splits sum.splits)
    then obtain evs' where "snd (single_file_copy fuel w src_fs src_path dest_fs dest_path
                    buffer_size size_hint sem tr) = tr @ announce src_path dest_path
                      # (Acquire sem # evs')" "list_all (\<lambda>c. \<not> is_mark c) (Acquire sem # evs')"
      unfolding unfold by auto
    then show ?thesis by blast
  qed
qed

lemma announce_mark: "is_mark (announce p d)"
  by (simp add: announce_def)

lemma dispatch_each_marks:
  "\<exists>evs. snd (dispatch_each fuel w src_fs root dest_fs dest_root files tr) = tr @ evs
         \<and> prefix (filter is_mark evs) (concat (map (marks dest_fs root dest_root) files))
         \<and> (fst (dispatch_each fuel w src_fs root dest_fs dest_root files tr) = Some (Inr ())
              \<longrightarrow> filter is_mark evs = concat (map (marks dest_fs root dest_root) files))"
proof (induction files arbitrary: tr)
  case Nil
  show ?case by (simp add: ret_def)
next
  case (Cons entry rest)
  obtain p i where entry: "entry = (p, i)" by (cases entry)
  let ?d = "mirrored root dest_root p"
  let ?mk = "MakeDirs dest_fs (parent_dir ?d)"
  show ?case
  proof (cases "prefix root p")
    case False
    with entry show ?thesis by (simp add: throw_def)
  next
    case under: True
    show ?thesis
    proof (cases "w_returns w tr ?mk")
      case (Some e)
      with under entry show ?thesis
        by (simp add: seq_def call_def marks_def)
    next
      case None
      let ?t1 = "tr @ [?mk]"
      let ?job = "single_file_copy fuel w src_fs p dest_fs ?d (CHUNK_SIZE w) (isize i)
                    MAX_CONCURRENT_COPIES ?t1"
      obtain ev where ev: "snd ?job = ?t1 @ announce p ?d # ev"
          "list_all (\<lambda>c. \<not> is_mark c) ev"
        using single_file_copy_marks by blast
      then have quiet: "filter is_mark ev = []"
        by (simp add: list_all_iff filter_empty_conv)
      let ?t2 = "?t1 @ announce p ?d # ev"
      from Cons.IH [of ?t2]
      obtain evs where evs:
          "snd (dispatch_each fuel w src_fs root dest_fs dest_root rest ?t2) = ?t2 @ evs"
          "prefix (filter is_mark evs) (concat (map (marks dest_fs root dest_root) rest))"
          "fst (dispatch_each fuel w src_fs root dest_fs dest_root rest ?t2) = Some (Inr ())
              \<longrightarrow> filter is_mark evs = concat (map (marks dest_fs root dest_root) rest)"
        by blast
      have step: "dispatch_each fuel w src_fs root dest_fs dest_root (entry # rest) tr
           = seq (\<lambda>t. ?job) (\<lambda>_. dispatch_each fuel w src_fs root dest_fs dest_root rest) ?t1"
        using under entry None by (simp add: seq_def call_def)
      show ?thesis
      proof (cases "fst ?job = Some (Inr ())")
        case True
        then have run: "dispatch_each fuel w src_fs root dest_fs dest_root (entry # rest) tr
           = dispatch_each fuel w src_fs root dest_fs dest_root rest ?t2"
          using ev(1) unfolding step by (cases ?job) (auto simp: seq_def)
        have f: "filter is_mark (?mk # announce p ?d # ev @ evs)
                       = marks dest_fs root dest_root entry @ filter is_mark evs"
          using quiet entry by (simp add: marks_def announce_mark)
        have 1: "snd (dispatch_each fuel w src_fs root dest_fs dest_root (entry # rest) tr)
                 = tr @ (?mk # announce p ?d # ev @ evs)"
          unfolding run evs(1) by simp
        have 2: "prefix (filter is_mark (?mk # announce p ?d # ev @ evs))
                   (concat (map (marks dest_fs root dest_root) (entry # rest)))"
          unfolding f using evs(2) by simp
        have 3: "fst (dispatch_each fuel w src_fs root dest_fs dest_root (entry # rest) tr)
                   = Some (Inr ())
                 \<longrightarrow> filter is_mark (?mk # announce p ?d # ev @ evs)
                     = concat (map (marks dest_fs root dest_root) (entry # rest))"
          unfolding f run using evs(3) by simp
        from 1 2 3 show ?thesis by blast
      next
        case False
        then have stop: "dispatch_each fuel w src_fs root dest_fs dest_root (entry # rest) tr
           = (fst ?job, ?t2)"
          using ev(1) unfolding step
          by (cases ?job) (auto simp: seq_def split: option.splits sum.splits)
        have f: "filter is_mark (?mk # announce p ?d # ev) = marks dest_fs root dest_root entry"
          using quiet entry by (simp add: marks_def announce_mark)
        have 1: "snd (dispatch_each fuel w src_fs root dest_fs dest_root (entry # rest) tr)
                 = tr @ (?mk # announce p ?d # ev)"
          unfolding stop by simp
        have 2: "prefix (filter is_mark (?mk # announce p ?d # ev))
                   (concat (map (marks dest_fs root dest_root) (entry # rest)))"
          unfolding f by simp
        have 3: "fst (dispatch_each fuel w src_fs root dest_fs dest_root (entry # rest) tr)
                   = Some (Inr ())
                 \<longrightarrow> filter is_mark (?mk # announce p ?d # ev)
                     = concat (map (marks dest_fs root dest_root) (entry # rest))"
          unfolding stop using False by simp
        from 1 2 3 show ?thesis by blast
      qed
    qed
  qed
qed


lemma find_loop_dispatch:
  assumes general: "\<not> (protocol src_fs = Tag ''xet'' \<and> protocol dest_fs = Tag ''xet'')"
  shows "list_all (\<lambda>r. r = Inr ()) futures \<Longrightarrow>
         seq (find_loop fuel w src_fs root dest_fs dest_root False entries futures) wait_all tr
         = dispatch_each fuel w src_fs root dest_fs dest_root
             (filter (\<lambda>(p, i). itype i \<noteq> ''directory'') entries) tr"
proof (induction entries arbitrary: futures tr)
  case Nil
  then show ?case by (simp add: seq_def ret_def wait_all_ok)
next
  case (Cons entry rest)
  obtain p i where entry: "entry = (p, i)" by (cases entry)
  show ?case
  proof (cases "itype i = ''directory''")
    case True
    with Cons.IH [OF Cons.prems, of tr] entry show ?thesis
      by (simp add: seq_def)
  next
    case nondir: False
    show ?thesis
    proof (cases "prefix root p")
      case False
      with nondir entry show ?thesis
        by (simp add: ltrim_match_cases seq_def lift_def throw_def)
    next
      case under: True
      let ?d = "mirrored root dest_root p"
      let ?mk = "MakeDirs dest_fs (parent_dir ?d)"
      have d: "dest_for dest_root (py_lstrip (drop (length root) p) CHR ''/'') = ?d"
        by (simp add: mirrored_def)
      show ?thesis
      proof (cases "w_returns w tr ?mk")
        case (Some e)
        with nondir entry under show ?thesis
          by (simp add: ltrim_match_cases seq_def lift_def call_def Let_def d)
      next
        case None
        let ?job = "single_file_copy fuel w src_fs p dest_fs ?d (CHUNK_SIZE w) (isize i)
                      MAX_CONCURRENT_COPIES (tr @ [?mk])"
        from single_file_copy_general [OF general]
        have never: "fst ?job \<noteq> Some (Inl e)" for e by blast
        have lhs: "seq (find_loop fuel w src_fs root dest_fs dest_root False (entry # rest)
                          futures) wait_all tr
            = (case ?job of
                 (None, t) \<Rightarrow> (None, t)
               | (Some r, t) \<Rightarrow>
                   seq (find_loop fuel w src_fs root dest_fs dest_root False rest
                          (futures @ [r])) wait_all t)"
          using nondir entry under None
          by (cases ?job)
             (auto simp: ltrim_match_cases seq_def lift_def call_def Let_def d submit_def
                   split: option.splits sum.splits prod.splits)
        have rhs: "dispatch_each fuel w src_fs root dest_fs dest_root
                     (filter (\<lambda>(p, i). itype i \<noteq> ''directory'') (entry # rest)) tr
            = (case ?job of
                 (None, t) \<Rightarrow> (None, t)
               | (Some (Inl e), t) \<Rightarrow> (Some (Inl e), t)
               | (Some (Inr u), t) \<Rightarrow>
                   dispatch_each fuel w src_fs root dest_fs dest_root
                     (filter (\<lambda>(p, i). itype i \<noteq> ''directory'') rest) t)"
          using nondir entry under None
          by (cases ?job) (auto simp: seq_def call_def split: option.splits sum.splits)
        show ?thesis
        proof (cases "fst ?job")
          case none: None
          then show ?thesis
            unfolding lhs rhs by (cases ?job) auto
        next
          case (Some r)
          with never have r: "r = Inr ()" by (cases r) auto
          have ok: "list_all (\<lambda>r. r = Inr ()) (futures @ [Inr ()])"
            using Cons.prems by simp
          from Some r show ?thesis
            unfolding lhs rhs by (cases ?job) (auto simp: Cons.IH [OF ok])
        qed
      qed
    qed
  qed
qed

text \<open>
  C2, amended: a copy with \<open>recursive = False\<close> whose source has no wildcard and is a
  directory, between handles that are not both content-addressed. The entries of type
  directory are skipped, and the other entries are dispatched in the order of the
  enumeration: the run is, after the enumeration, exactly the one that takes each entry
  that is not a directory in turn, ends with the path mismatch if it lies outside the
  source directory, and else creates the parent directory of its mirrored destination
  and hands it to the single-item transfer. Over the events: the directory creations
  and first transfer lines of the run are, in order, an initial part of those of the
  entries that are not directories, and all of them when the copy returns normally; and
  the copy can only end with an exception through such an entry outside the source
  directory or a failed directory creation.
\<close>

theorem copy_directory_not_recursive:
  assumes src: "get_fs_and_path w source tr = (Some (Inr (src_fs0, src_path0)), tr1)"
      and dst: "get_fs_and_path w destination tr1 = (Some (Inr (dest_fs0, dest_path0)), tr2)"
      and sfs: "src_fs = (case src_fs_arg of Some f \<Rightarrow> f | None \<Rightarrow> src_fs0)"
      and dfs: "dest_fs = (case dest_fs_arg of Some f \<Rightarrow> f | None \<Rightarrow> dest_fs0)"
      and val: "validate_xet_copy w src_fs src_path0 dest_fs dest_path0 tr2
                  = (Some (Inr ()), tr3)"
      and dir: "isdir w src_fs (normalize src_path0) tr3 = (Some (Inr True), tr4)"
      and plain: "CHR ''*'' \<notin> set (normalize src_path0)"
      and general: "\<not> (protocol src_fs = Tag ''xet'' \<and> protocol dest_fs = Tag ''xet'')"
      and listing: "w_listing w tr4 (Find src_fs (normalize src_path0)) = Inr entries"
      and files: "files = filter (\<lambda>(p, i). itype i \<noteq> ''directory'') entries"
  shows "copy (Suc fuel) w source destination False src_fs_arg dest_fs_arg sem tr
           = dispatch_each (Suc fuel) w src_fs (normalize src_path0) dest_fs
               (normalize dest_path0) files (tr4 @ [Find src_fs (normalize src_path0)])
         \<and> (\<exists>evs.
               snd (copy (Suc fuel) w source destination False src_fs_arg dest_fs_arg sem tr)
                 = tr4 @ Find src_fs (normalize src_path0) # evs
             \<and> prefix (filter is_mark evs)
                  (concat (map (marks dest_fs (normalize src_path0) (normalize dest_path0))
                             files))
             \<and> (fst (copy (Suc fuel) w source destination False src_fs_arg dest_fs_arg sem
                        tr) = Some (Inr ())
                  \<longrightarrow> filter is_mark evs
                      = concat (map (marks dest_fs (normalize src_path0)
                                       (normalize dest_path0)) files)))
         \<and> (\<forall>e. fst (copy (Suc fuel) w source destination False src_fs_arg dest_fs_arg sem
                        tr) = Some (Inl e)
                  \<longrightarrow> interrupted_by w dest_fs (normalize src_path0) files e
                        (snd (copy (Suc fuel) w source destination False src_fs_arg
                                dest_fs_arg sem tr)))"
proof -
  let ?root = "normalize src_path0"
  let ?droot = "normalize dest_path0"
  let ?tr5 = "tr4 @ [Find src_fs ?root]"
  let ?run = "copy (Suc fuel) w source destination False src_fs_arg dest_fs_arg sem tr"
  have nil: "list_all (\<lambda>r. r = Inr ()) ([] :: (exn + unit) list)" by simp
  have loop: "?run = seq (find_loop (Suc fuel) w src_fs ?root dest_fs ?droot False entries [])
                       wait_all ?tr5"
    using src dst val dir plain general listing unfolding sfs dfs
    by (auto simp: seq_def call_listing_def Let_def)
  have exact: "?run = dispatch_each (Suc fuel) w src_fs ?root dest_fs ?droot files ?tr5"
    unfolding loop files by (rule find_loop_dispatch [OF general nil])
  from dispatch_each_marks [of "Suc fuel" w src_fs ?root dest_fs ?droot files ?tr5]
  obtain evs where evs:
      "snd (dispatch_each (Suc fuel) w src_fs ?root dest_fs ?droot files ?tr5) = ?tr5 @ evs"
      "prefix (filter is_mark evs) (concat (map (marks dest_fs ?root ?droot) files))"
      "fst (dispatch_each (Suc fuel) w src_fs ?root dest_fs ?droot files ?tr5) = Some (Inr ())
         \<longrightarrow> filter is_mark evs = concat (map (marks dest_fs ?root ?droot) files)"
    by blast
  have events: "\<exists>evs. snd ?run = tr4 @ Find src_fs ?root # evs
             \<and> prefix (filter is_mark evs) (concat (map (marks dest_fs ?root ?droot) files))
             \<and> (fst ?run = Some (Inr ())
                  \<longrightarrow> filter is_mark evs = concat (map (marks dest_fs ?root ?droot) files))"
    using evs unfolding exact by auto
  have stop: "interrupted_by w dest_fs ?root files e (snd ?run)" if "fst ?run = Some (Inl e)" for e
  proof -
    have "?run = seq (find_loop (Suc fuel) w src_fs ?root dest_fs ?droot False files [])
                   wait_all ?tr5"
      unfolding exact
      using find_loop_dispatch [OF general nil, of "Suc fuel" w ?root ?droot files ?tr5]
      by (simp add: files)
    with that have "seq (find_loop (Suc fuel) w src_fs ?root dest_fs ?droot False files [])
                   wait_all ?tr5 = (Some (Inl e), snd ?run)"
      by (metis prod.collapse)
    with find_loop_batch [OF general nil, where fuel = "Suc fuel" and w = w
           and src_path = ?root and dest_path = ?droot and recursive = False
           and entries = files and tr = ?tr5]
    show ?thesis
      by (auto simp: seq_def wait_all_ok ret_def split: prod.splits option.splits sum.splits)
  qed
  from exact events stop show ?thesis by blast
qed

theorem copy_directory_not_recursive_witness:
  "get_fs_and_path tree ''s3://d'' [] = (Some (Inr (s3, ''d'')), [])
   \<and> get_fs_and_path tree ''gcs://out'' [] = (Some (Inr (gcs, ''out'')), [])
   \<and> validate_xet_copy tree s3 ''d'' gcs ''out'' [] = (Some (Inr ()), [])
   \<and> isdir tree s3 (normalize ''d'') [] = (Some (Inr True), [IsDir s3 ''d''])
   \<and> CHR ''*'' \<notin> set (normalize ''d'')
   \<and> \<not> (protocol s3 = Tag ''xet'' \<and> protocol gcs = Tag ''xet'')
   \<and> w_listing tree [IsDir s3 ''d''] (Find s3 (normalize ''d''))
       = Inr [(''d/sub'', \<lparr>itype = ''directory'', isize = None\<rparr>),
              (''d/f.txt'', \<lparr>itype = ''file'', isize = Some 3\<rparr>)]
   \<and> copy 3 tree ''s3://d'' ''gcs://out'' False None None MAX_CONCURRENT_COPIES []
       = dispatch_each 3 tree s3 ''d'' gcs ''out''
           [(''d/f.txt'', \<lparr>itype = ''file'', isize = Some 3\<rparr>)]
           [IsDir s3 ''d'', Find s3 ''d'']
   \<and> fst (copy 3 tree ''s3://d'' ''gcs://out'' False None None MAX_CONCURRENT_COPIES [])
       = Some (Inr ())
   \<and> filter is_mark
        (drop 2 (snd (copy 3 tree ''s3://d'' ''gcs://out'' False None None
                        MAX_CONCURRENT_COPIES [])))
       = [MakeDirs gcs ''out'', Stdout ''Copying d/f.txt to out/f.txt...'']
   \<and> w_listing stray [IsDir s3 ''d''] (Find s3 (normalize ''d''))
       = Inr [(''x/g.txt'', \<lparr>itype = ''file'', isize = Some 3\<rparr>),
              (''d/f.txt'', \<lparr>itype = ''file'', isize = Some 3\<rparr>)]
   \<and> copy 3 stray ''s3://d'' ''gcs://out'' False None None MAX_CONCURRENT_COPIES []
       = (Some (Inl (path_mismatch ''x/g.txt'' ''d'')), [IsDir s3 ''d'', Find s3 ''d''])"
proof -
  have a: "get_fs_and_path tree ''s3://d'' [] = (Some (Inr (s3, ''d'')), [])"
    by (simp add: get_fs_and_path_def tree_def calm_def s3_def py_split_def prog_defs)
  have b: "get_fs_and_path tree ''gcs://out'' [] = (Some (Inr (gcs, ''out'')), [])"
    by (simp add: get_fs_and_path_def tree_def calm_def gcs_def py_split_def prog_defs)
  have sf: "s3 = (case (None :: fs option) of Some f \<Rightarrow> f | None \<Rightarrow> s3)"
    by simp
  have df: "gcs = (case (None :: fs option) of Some f \<Rightarrow> f | None \<Rightarrow> gcs)"
    by simp
  have v: "validate_xet_copy tree s3 ''d'' gcs ''out'' [] = (Some (Inr ()), [])"
    by (simp add: validate_xet_copy_def s3_def gcs_def prog_defs)
  have n: "normalize ''d'' = ''d''" "normalize ''out'' = ''out''"
    by (simp_all add: normalize_def py_rstrip_def)
  have i: "isdir tree s3 (normalize ''d'') [] = (Some (Inr True), [IsDir s3 ''d''])"
    by (simp add: isdir_def n s3_def tree_def calm_def prog_defs)
  have p: "CHR ''*'' \<notin> set (normalize ''d'')"
    by (simp add: n)
  have g: "\<not> (protocol s3 = Tag ''xet'' \<and> protocol gcs = Tag ''xet'')"
    by (simp add: s3_def)
  have l: "w_listing tree [IsDir s3 ''d''] (Find s3 (normalize ''d''))
       = Inr [(''d/sub'', \<lparr>itype = ''directory'', isize = None\<rparr>),
              (''d/f.txt'', \<lparr>itype = ''file'', isize = Some 3\<rparr>)]"
    by (simp add: tree_def)
  have ok: "fst (copy 3 tree ''s3://d'' ''gcs://out'' False None None MAX_CONCURRENT_COPIES [])
       = Some (Inr ())"
    by code_simp
  have m: "concat (map (marks gcs ''d'' ''out'')
                     [(''d/f.txt'', \<lparr>itype = ''file'', isize = Some 3\<rparr>)])
           = [MakeDirs gcs ''out'', Stdout ''Copying d/f.txt to out/f.txt...'']"
    by (simp add: marks_def mirrored_def dest_for_def py_lstrip_def parent_dir_def
                  py_split_def announce_def)
  note inst = copy_directory_not_recursive [OF a b sf df v i p g l refl,
                where fuel = 2 and sem = MAX_CONCURRENT_COPIES]
  from inst have exact:
    "copy 3 tree ''s3://d'' ''gcs://out'' False None None MAX_CONCURRENT_COPIES []
       = dispatch_each 3 tree s3 ''d'' gcs ''out''
           [(''d/f.txt'', \<lparr>itype = ''file'', isize = Some 3\<rparr>)]
           [IsDir s3 ''d'', Find s3 ''d'']"
    by (simp add: n numeral_3_eq_3)
  from inst obtain evs where evs:
      "snd (copy 3 tree ''s3://d'' ''gcs://out'' False None None MAX_CONCURRENT_COPIES [])
         = [IsDir s3 ''d''] @ Find s3 ''d'' # evs"
      "fst (copy 3 tree ''s3://d'' ''gcs://out'' False None None MAX_CONCURRENT_COPIES [])
         = Some (Inr ())
       \<longrightarrow> filter is_mark evs
           = concat (map (marks gcs ''d'' ''out'')
                       [(''d/f.txt'', \<lparr>itype = ''file'', isize = Some 3\<rparr>)])"
    by (auto simp: n numeral_3_eq_3)
  from evs ok m have shown:
    "filter is_mark
        (drop 2 (snd (copy 3 tree ''s3://d'' ''gcs://out'' False None None
                        MAX_CONCURRENT_COPIES [])))
       = [MakeDirs gcs ''out'', Stdout ''Copying d/f.txt to out/f.txt...'']"
    by simp
  have a': "get_fs_and_path stray ''s3://d'' [] = (Some (Inr (s3, ''d'')), [])"
    by (simp add: get_fs_and_path_def stray_def tree_def calm_def s3_def py_split_def
                  prog_defs)
  have b': "get_fs_and_path stray ''gcs://out'' [] = (Some (Inr (gcs, ''out'')), [])"
    by (simp add: get_fs_and_path_def stray_def tree_def calm_def gcs_def py_split_def
                  prog_defs)
  have v': "validate_xet_copy stray s3 ''d'' gcs ''out'' [] = (Some (Inr ()), [])"
    by (simp add: validate_xet_copy_def s3_def gcs_def prog_defs)
  have i': "isdir stray s3 (normalize ''d'') [] = (Some (Inr True), [IsDir s3 ''d''])"
    by (simp add: isdir_def n s3_def stray_def tree_def calm_def prog_defs)
  have l': "w_listing stray [IsDir s3 ''d''] (Find s3 (normalize ''d''))
       = Inr [(''x/g.txt'', \<lparr>itype = ''file'', isize = Some 3\<rparr>),
              (''d/f.txt'', \<lparr>itype = ''file'', isize = Some 3\<rparr>)]"
    by (simp add: stray_def)
  from copy_directory_not_recursive [OF a' b' sf df v' i' p g l' refl,
         where fuel = 2 and sem = MAX_CONCURRENT_COPIES]
  have lost: "copy 3 stray ''s3://d'' ''gcs://out'' False None None MAX_CONCURRENT_COPIES []
       = (Some (Inl (path_mismatch ''x/g.txt'' ''d'')), [IsDir s3 ''d'', Find s3 ''d''])"
    by (simp add: n numeral_3_eq_3 throw_def)
  from a b v i p g l exact ok shown l' lost show ?thesis by simp
qed

text \<open>
  The claim as stated fails: the file \<open>d/f.txt\<close> of the directory \<open>d\<close> is transferred
  and written although the copy is not recursive.
\<close>

theorem copy_directory_not_recursive_counterexample:
  "isdir tree s3 ''d'' [] = (Some (Inr True), [IsDir s3 ''d''])
   \<and> copy 3 tree ''s3://d'' ''gcs://out'' False None None MAX_CONCURRENT_COPIES []
       = (Some (Inr ()),
          [IsDir s3 ''d'', Find s3 ''d'', MakeDirs gcs ''out'',
           Stdout ''Copying d/f.txt to out/f.txt...'', Acquire MAX_CONCURRENT_COPIES,
           OpenRead s3 ''d/f.txt'', OpenWrite gcs ''out/f.txt'', Read s3 ''d/f.txt'' 4,
           Write gcs ''out/f.txt'' ''abc'', Read s3 ''d/f.txt'' 4,
           CloseWrite gcs ''out/f.txt'', CloseRead s3 ''d/f.txt'',
           Release MAX_CONCURRENT_COPIES])"
  by code_simp

end
